theory Spec2Isabelle
  imports Complex_Main "HOL-Library.Word" "HOL-Library.Multiset" "HOL-Library.Monad_Syntax"
begin

unbundle bit_operations_syntax

section \<open>JTP: datagram fragmentation and reassembly\<close>

text \<open>
  A shallow embedding of the encoder (\<open>lib/Encoder\<close>, class \<open>JTPEncoder\<close>) and of the
  decoder (\<open>lib/Decoder\<close>, class \<open>JTPDecoder\<close>) of the JTP library, together with the
  constants of \<open>lib/constants.js\<close>.

  Conventions of the model:
  \<^item> a Node \<open>Buffer\<close> is a list of bytes; JavaScript numbers that hold lengths, indices
    and header fields are natural numbers; the one subtraction that can go negative
    (in \<open>_is_newer_message\<close>) is done on \<open>int\<close>;
  \<^item> the source identifier is a 32-bit word, as the constructors document it;
  \<^item> \<open>emit\<close> appends an event to the list of events a call returns;
  \<^item> \<open>setImmediate\<close> does not run its callback: the call returns the deferred work as
    a value, to be run later by the caller of the model;
  \<^item> a \<open>RangeError\<close> thrown by a \<open>Buffer\<close> write is the value \<open>None\<close>, threaded
    through the writes of a packet by the option monad.
\<close>

type_synonym byte = "8 word"
type_synonym buffer = "byte list"

subsection \<open>Constants\<close>

definition VERSION :: nat where
  "VERSION = 0"

definition MAGIC_BYTE :: nat where
  "MAGIC_BYTE = 0x4A"

definition MAX_PAYLOAD_SIZE :: nat where
  "MAX_PAYLOAD_SIZE = 1200"

subsection \<open>Buffer primitives\<close>

text \<open>
  \<open>Buffer.allocUnsafe\<close> returns memory of unspecified content; the model takes zeros.
  Every caller below overwrites all of it, and the lemmas about the writers are stated
  for an arbitrary initial content of the right length.
\<close>

definition allocUnsafe :: "nat \<Rightarrow> buffer" where
  "allocUnsafe sz = replicate sz 0"

text \<open>
  The readers. Node throws when the offset is out of range; \<open>decode_packet\<close> reads
  offset 0 only behind \<open>packet.length < 1\<close> and offsets 1 to 11 only behind
  \<open>packet.length < 12\<close>.
\<close>

definition readUInt8 :: "buffer \<Rightarrow> nat \<Rightarrow> nat" where
  "readUInt8 buf off = unat (buf ! off)"

definition readUInt16LE :: "buffer \<Rightarrow> nat \<Rightarrow> nat" where
  "readUInt16LE buf off = unat (buf ! off) + 256 * unat (buf ! (off + 1))"

definition readUInt32LE :: "buffer \<Rightarrow> nat \<Rightarrow> 32 word" where
  "readUInt32LE buf off =
     of_nat (unat (buf ! off) + 256 * unat (buf ! (off + 1))
             + 65536 * unat (buf ! (off + 2)) + 16777216 * unat (buf ! (off + 3)))"

text \<open>
  The writers. Node throws a \<open>RangeError\<close> when the value does not fit the field or the
  field does not fit the buffer.
\<close>

definition writeUInt8 :: "nat \<Rightarrow> nat \<Rightarrow> buffer \<Rightarrow> buffer option" where
  "writeUInt8 v off buf =
     (if v \<le> 0xFF \<and> off + 1 \<le> length buf then Some (buf[off := of_nat v]) else None)"

definition writeUInt16LE :: "nat \<Rightarrow> nat \<Rightarrow> buffer \<Rightarrow> buffer option" where
  "writeUInt16LE v off buf =
     (if v \<le> 0xFFFF \<and> off + 2 \<le> length buf
      then Some (buf[off := of_nat (v mod 256), off + 1 := of_nat (v div 256)])
      else None)"

definition writeUInt32LE :: "32 word \<Rightarrow> nat \<Rightarrow> buffer \<Rightarrow> buffer option" where
  "writeUInt32LE v off buf =
     (if off + 4 \<le> length buf
      then Some (buf[off := of_nat (unat v mod 256),
                     off + 1 := of_nat (unat v div 256 mod 256),
                     off + 2 := of_nat (unat v div 65536 mod 256),
                     off + 3 := of_nat (unat v div 16777216)])
      else None)"

text \<open>
  \<open>source.copy(target, targetStart, sourceStart, sourceEnd)\<close>: the bytes
  \<open>[sourceStart, sourceEnd)\<close> of the source overwrite the target from \<open>targetStart\<close>
  on; what does not fit the target is dropped, and the target keeps its length.
\<close>

definition buffer_copy :: "buffer \<Rightarrow> buffer \<Rightarrow> nat \<Rightarrow> nat \<Rightarrow> nat \<Rightarrow> buffer" where
  "buffer_copy source target targetStart sourceStart sourceEnd =
     (let bytes = take (sourceEnd - sourceStart) (drop sourceStart source)
      in if targetStart \<ge> length target then target
         else take targetStart target
              @ take (length target - targetStart) bytes
              @ drop (targetStart + length bytes) target)"

subsection \<open>Encoder\<close>

record encoder =
  enc_source_id :: "32 word"
  enc_message_id :: nat
  buffer_pool :: "buffer list"

definition new_encoder :: "32 word \<Rightarrow> encoder" where
  "new_encoder sid = \<lparr>enc_source_id = sid, enc_message_id = 0, buffer_pool = []\<rparr>"

definition increment_message_id :: "encoder \<Rightarrow> encoder" where
  "increment_message_id e = e\<lparr>enc_message_id := (enc_message_id e + 1) mod 0x10000\<rparr>"

text \<open>
  \<open>_get_buffer\<close>: the first pooled buffer that is long enough, cut to size and taken out
  of the pool, or a fresh allocation. It returns the buffer and the pool that is left.
\<close>

fun get_buffer :: "buffer list \<Rightarrow> nat \<Rightarrow> buffer \<times> buffer list" where
  "get_buffer [] sz = (allocUnsafe sz, [])"
| "get_buffer (b # pool) sz =
     (if length b \<ge> sz then (take sz b, pool)
      else (let (r, pool') = get_buffer pool sz in (r, b # pool')))"

definition return_buffer :: "encoder \<Rightarrow> buffer \<Rightarrow> encoder" where
  "return_buffer e buf =
     (if length buf \<le> 64 * 1024 \<and> length (buffer_pool e) < 10
      then e\<lparr>buffer_pool := buffer_pool e @ [buf]\<rparr> else e)"

text \<open>What the caller hands to \<open>encode_message\<close> as \<open>message_buffer\<close>.\<close>

datatype js_value = Buffer buffer | NotABuffer

datatype encode_error =
    InvalidMessageType int
  | InvalidInputType
  | MessageTooLarge nat
  | EncodeException

record packet_info =
  pi_message_id :: nat
  pi_message_type :: int
  pi_fragment_index :: nat
  pi_fragment_count :: nat
  pi_fragment_size :: nat

record completion_metadata =
  cm_message_id :: nat
  cm_message_type :: int
  cm_fragment_count :: nat
  cm_total_bytes :: nat

datatype enc_event =
    Packet buffer packet_info
  | MessageEncoded completion_metadata
  | EncError encode_error

text \<open>
  The work \<open>encode_message\<close> hands to \<open>setImmediate\<close>: either the emission of one error,
  or the call of \<open>_encode_message_async\<close> with the arguments captured at the call.
\<close>

datatype enc_deferred =
    EmitError encode_error
  | EncodeAsync buffer int nat nat

text \<open>
  \<open>Math.ceil(message_length / MAX_PAYLOAD_SIZE)\<close> on natural numbers; the lemma
  \<open>ceil_div_ceiling\<close> below relates it to the ceiling of the real quotient.
\<close>

definition ceil_div :: "nat \<Rightarrow> nat \<Rightarrow> nat" where
  "ceil_div a b = (a + b - 1) div b"

text \<open>
  One turn of the loop of \<open>_encode_message_async\<close> up to the \<open>emit\<close>: the packet of
  fragment \<open>fragment_index\<close>, written into \<open>packet_buffer\<close> (which \<open>_get_buffer\<close> gave).
\<close>

definition write_packet ::
  "32 word \<Rightarrow> buffer \<Rightarrow> int \<Rightarrow> nat \<Rightarrow> nat \<Rightarrow> nat \<Rightarrow> buffer \<Rightarrow> buffer option" where
  "write_packet sid message_buffer message_type message_id fragment_count fragment_index
                packet_buffer =
     (let message_length = length message_buffer;
          frag_start = fragment_index * MAX_PAYLOAD_SIZE;
          frag_end = min (frag_start + MAX_PAYLOAD_SIZE) message_length;
          header_length = 12;
          version_and_type = nat (push_bit 6 (int VERSION) OR (message_type AND 0x3F))
      in do {
           b0 \<leftarrow> writeUInt8 MAGIC_BYTE 0 packet_buffer;
           b1 \<leftarrow> writeUInt8 version_and_type 1 b0;
           b2 \<leftarrow> writeUInt16LE message_id 2 b1;
           b3 \<leftarrow> writeUInt16LE fragment_index 4 b2;
           b4 \<leftarrow> writeUInt16LE fragment_count 6 b3;
           b5 \<leftarrow> writeUInt32LE sid 8 b4;
           Some (buffer_copy message_buffer b5 header_length frag_start frag_end)
         })"

text \<open>
  The loop of \<open>_encode_message_async\<close> over the fragment indices still to do. A thrown
  error ends the loop in the \<open>catch\<close>, after the packets already emitted. The pauses of
  the loop (\<open>await\<close> on \<open>setImmediate\<close>) emit nothing and change no state.
\<close>

fun encode_loop ::
  "encoder \<Rightarrow> buffer \<Rightarrow> int \<Rightarrow> nat \<Rightarrow> nat \<Rightarrow> nat list \<Rightarrow> encoder \<times> enc_event list" where
  "encode_loop e message_buffer message_type message_id fragment_count [] =
     (e, [MessageEncoded \<lparr>cm_message_id = message_id, cm_message_type = message_type,
                           cm_fragment_count = fragment_count,
                           cm_total_bytes = length message_buffer\<rparr>])"
| "encode_loop e message_buffer message_type message_id fragment_count (fragment_index # rest) =
     (let frag_start = fragment_index * MAX_PAYLOAD_SIZE;
          frag_end = min (frag_start + MAX_PAYLOAD_SIZE) (length message_buffer);
          frag_payload_length = frag_end - frag_start;
          (packet_buffer, pool') = get_buffer (buffer_pool e) (12 + frag_payload_length);
          e' = e\<lparr>buffer_pool := pool'\<rparr>
      in case write_packet (enc_source_id e) message_buffer message_type message_id
                fragment_count fragment_index packet_buffer of
           None \<Rightarrow> (e', [EncError EncodeException])
         | Some packet \<Rightarrow>
             (let (e'', evs) = encode_loop e' message_buffer message_type message_id
                                 fragment_count rest
              in (e'', Packet packet \<lparr>pi_message_id = message_id,
                                      pi_message_type = message_type,
                                      pi_fragment_index = fragment_index,
                                      pi_fragment_count = fragment_count,
                                      pi_fragment_size = frag_payload_length\<rparr> # evs)))"

definition encode_message_async ::
  "encoder \<Rightarrow> buffer \<Rightarrow> int \<Rightarrow> nat \<Rightarrow> nat \<Rightarrow> encoder \<times> enc_event list" where
  "encode_message_async e message_buffer message_type message_id fragment_count =
     encode_loop e message_buffer message_type message_id fragment_count [0..<fragment_count]"

text \<open>
  \<open>encode_message\<close> returns the new encoder, the returned value (\<open>None\<close> is \<open>null\<close>) and
  the work it deferred.
\<close>

definition encode_message :: "encoder \<Rightarrow> js_value \<Rightarrow> int \<Rightarrow> encoder \<times> nat option \<times> enc_deferred" where
  "encode_message e message_buffer message_type =
     (if message_type < 0 \<or> message_type > 63
      then (e, None, EmitError (InvalidMessageType message_type))
      else case message_buffer of
          NotABuffer \<Rightarrow> (e, None, EmitError InvalidInputType)
        | Buffer bytes \<Rightarrow>
            (let message_length = length bytes;
                 fragment_count = max 1 (ceil_div message_length MAX_PAYLOAD_SIZE)
             in if fragment_count > 0xFFFF
                then (e, None, EmitError (MessageTooLarge message_length))
                else (let message_id = enc_message_id e
                      in (increment_message_id e, Some message_id,
                          EncodeAsync bytes message_type message_id fragment_count))))"

text \<open>Running the deferred work, as the event loop does on its next turn.\<close>

fun run_enc_deferred :: "encoder \<Rightarrow> enc_deferred \<Rightarrow> encoder \<times> enc_event list" where
  "run_enc_deferred e (EmitError err) = (e, [EncError err])"
| "run_enc_deferred e (EncodeAsync bytes message_type message_id fragment_count) =
     encode_message_async e bytes message_type message_id fragment_count"

text \<open>The packets among the events, in the order of their emission.\<close>

fun packets_of :: "enc_event list \<Rightarrow> buffer list" where
  "packets_of [] = []"
| "packets_of (Packet p info # evs) = p # packets_of evs"
| "packets_of (ev # evs) = packets_of evs"

subsection \<open>Decoder\<close>

record accumulator =
  message_id :: nat
  fragment_count :: nat
  fragments_received :: nat
  fragments :: "nat \<rightharpoonup> buffer"
  message_len :: nat
  valid :: bool

record decoder =
  source_id :: "32 word"
  message_types :: "nat set option"
  accumulators :: "nat \<rightharpoonup> accumulator"

text \<open>The constructor; \<open>message_types = null\<close> (no filter) is \<open>None\<close>.\<close>

definition new_decoder :: "32 word \<Rightarrow> nat set option \<Rightarrow> decoder" where
  "new_decoder sid types = \<lparr>source_id = sid, message_types = types, accumulators = Map.empty\<rparr>"

datatype decode_error =
    PacketTooShort
  | UnsupportedVersion nat
  | InvalidFragment nat nat nat
  | MessageIdMismatch nat nat
  | DuplicateFragment nat nat
  | FragmentCountExceeded nat nat
  | ReassemblyFailed nat nat

record message_metadata =
  md_message_id :: nat
  md_fragment_count :: nat
  md_total_bytes :: nat

text \<open>
  The events of the decoder, with their arguments in the order of the source:
  \<open>error\<close>, \<open>message:incomplete\<close> (type, id, fragments received, fragment count),
  \<open>message:start\<close> (type, id, fragment count), \<open>fragment:received\<close> (type, id, index,
  fragment count, fragments received), \<open>message\<close> (buffer, type, metadata) and
  \<open>message:complete\<close> (type, id, fragment count, total bytes).
\<close>

datatype dec_event =
    Error decode_error
  | MessageIncomplete nat nat nat nat
  | MessageStart nat nat nat
  | FragmentReceived nat nat nat nat nat
  | Message buffer nat message_metadata
  | MessageComplete nat nat nat nat

definition reset_message_state :: "decoder \<Rightarrow> nat option \<Rightarrow> decoder" where
  "reset_message_state d message_type =
     (case message_type of
        None \<Rightarrow> d\<lparr>accumulators := Map.empty\<rparr>
      | Some t \<Rightarrow> d\<lparr>accumulators := (accumulators d)(t := None)\<rparr>)"

definition is_newer_message :: "nat \<Rightarrow> nat \<Rightarrow> bool" where
  "is_newer_message new_id old_id =
     (let diff = (int new_id - int old_id) AND 0xFFFF in diff > 0 \<and> diff < 0x8000)"

text \<open>
  The loop of \<open>_reassemble_message\<close> over the indices still to copy: \<open>Inl i\<close> is the
  throw of \<open>Missing fragment i\<close>, \<open>Inr\<close> the filled message buffer.
\<close>

fun copy_fragments :: "(nat \<rightharpoonup> buffer) \<Rightarrow> nat list \<Rightarrow> buffer \<Rightarrow> nat \<Rightarrow> nat + buffer" where
  "copy_fragments frags [] message_buffer offset = Inr message_buffer"
| "copy_fragments frags (i # rest) message_buffer offset =
     (case frags i of
        None \<Rightarrow> Inl i
      | Some fragment \<Rightarrow>
          copy_fragments frags rest
            (buffer_copy fragment message_buffer offset 0 (length fragment))
            (offset + length fragment))"

definition reassemble_message :: "decoder \<Rightarrow> nat \<Rightarrow> nat \<Rightarrow> decoder \<times> dec_event list" where
  "reassemble_message d message_type expected_message_id =
     (case accumulators d message_type of
        None \<Rightarrow> (d, [])
      | Some acc \<Rightarrow>
          if message_id acc \<noteq> expected_message_id then (d, [])
          else
            (let evs =
               (case copy_fragments (fragments acc) [0..<fragment_count acc]
                       (allocUnsafe (message_len acc)) 0 of
                  Inl i \<Rightarrow> [Error (ReassemblyFailed expected_message_id i)]
                | Inr message_buffer \<Rightarrow>
                    [Message message_buffer message_type
                       \<lparr>md_message_id = expected_message_id,
                        md_fragment_count = fragment_count acc,
                        md_total_bytes = message_len acc\<rparr>,
                     MessageComplete message_type expected_message_id
                       (fragment_count acc) (message_len acc)])
             in (reset_message_state d (Some message_type), evs)))"

text \<open>
  What one call of \<open>decode_packet\<close> gives: the decoder after the call, the events in the
  order of their emission, the returned boolean, and the reassembly handed to
  \<open>setImmediate\<close> (message type and message id), if any.
\<close>

record decode_result =
  dr_state :: decoder
  dr_events :: "dec_event list"
  dr_return :: bool
  dr_deferred :: "(nat \<times> nat) option"

text \<open>
  The second half of \<open>decode_packet\<close>, from \<open>Get or create accumulator\<close> on: the
  freshness check, the duplicate check, the store and the reassembly. The model cuts
  \<open>decode_packet\<close> there, after the header is read and filtered.
\<close>

definition accumulate_fragment ::
  "decoder \<Rightarrow> nat \<Rightarrow> nat \<Rightarrow> nat \<Rightarrow> nat \<Rightarrow> buffer \<Rightarrow> decode_result" where
  "accumulate_fragment d message_type msg_id fragment_index frag_count payload =
     (let found = accumulators d message_type in
      if (case found of None \<Rightarrow> False | Some a \<Rightarrow> is_newer_message (message_id a) msg_id)
      then \<lparr>dr_state = d, dr_events = [], dr_return = False, dr_deferred = None\<rparr>
      else
        (let (acc, d1, evs1) =
           (if (case found of None \<Rightarrow> True | Some a \<Rightarrow> is_newer_message msg_id (message_id a))
            then
              (let fresh = \<lparr>message_id = msg_id, fragment_count = frag_count,
                             fragments_received = 0, fragments = Map.empty,
                             message_len = 0, valid = True\<rparr>
               in (fresh,
                   d\<lparr>accumulators := (accumulators d)(message_type \<mapsto> fresh)\<rparr>,
                   (case found of
                      None \<Rightarrow> []
                    | Some a \<Rightarrow> [MessageIncomplete message_type (message_id a)
                                  (fragments_received a) (fragment_count a)])
                   @ [MessageStart message_type msg_id frag_count]))
            else (the found, d, []))
         in
         if msg_id \<noteq> message_id acc
         then \<lparr>dr_state = d1,
               dr_events = evs1 @ [Error (MessageIdMismatch (message_id acc) msg_id)],
               dr_return = False, dr_deferred = None\<rparr>
         else if fragments acc fragment_index \<noteq> None
         then \<lparr>dr_state = d1,
               dr_events = evs1 @ [Error (DuplicateFragment fragment_index msg_id)],
               dr_return = False, dr_deferred = None\<rparr>
         else
           (let acc' = acc\<lparr>fragments := (fragments acc)(fragment_index \<mapsto> payload),
                            fragments_received := fragments_received acc + 1,
                            message_len := message_len acc + length payload\<rparr>;
                d2 = d1\<lparr>accumulators := (accumulators d1)(message_type \<mapsto> acc')\<rparr>
            in
            if fragments_received acc' > fragment_count acc'
            then \<lparr>dr_state = reset_message_state d2 (Some message_type),
                  dr_events = evs1 @ [Error (FragmentCountExceeded (fragments_received acc')
                                                (fragment_count acc'))],
                  dr_return = False, dr_deferred = None\<rparr>
            else
              (let evs2 = evs1 @ [FragmentReceived message_type msg_id fragment_index
                                    frag_count (fragments_received acc')]
               in
               if fragments_received acc' = fragment_count acc'
               then
                 (if fragment_count acc' > 100 \<or> message_len acc' > 64 * 1024
                  then \<lparr>dr_state = d2, dr_events = evs2, dr_return = True,
                        dr_deferred = Some (message_type, msg_id)\<rparr>
                  else
                    (let (d3, evs3) = reassemble_message d2 message_type msg_id
                     in \<lparr>dr_state = d3, dr_events = evs2 @ evs3, dr_return = True,
                         dr_deferred = None\<rparr>))
               else \<lparr>dr_state = d2, dr_events = evs2, dr_return = True,
                     dr_deferred = None\<rparr>))))"

definition decode_packet :: "decoder \<Rightarrow> buffer \<Rightarrow> decode_result" where
  "decode_packet d packet =
     (if length packet < 1 \<or> readUInt8 packet 0 \<noteq> MAGIC_BYTE
      then \<lparr>dr_state = d, dr_events = [], dr_return = False, dr_deferred = None\<rparr>
      else if length packet < 12
      then \<lparr>dr_state = d, dr_events = [Error PacketTooShort], dr_return = False,
            dr_deferred = None\<rparr>
      else
        (let version_and_type = readUInt8 packet 1;
             version = drop_bit 6 version_and_type AND 0x03;
             message_type = version_and_type AND 0x3F
         in
         if version \<noteq> VERSION
         then \<lparr>dr_state = d, dr_events = [Error (UnsupportedVersion version)],
               dr_return = False, dr_deferred = None\<rparr>
         else
           (let msg_id = readUInt16LE packet 2;
                fragment_index = readUInt16LE packet 4;
                frag_count = readUInt16LE packet 6;
                sid = readUInt32LE packet 8;
                payload = drop 12 packet;
                payload_length = length payload
            in
            if sid \<noteq> source_id d
            then \<lparr>dr_state = d, dr_events = [], dr_return = False, dr_deferred = None\<rparr>
            else if (case message_types d of None \<Rightarrow> False | Some ts \<Rightarrow> message_type \<notin> ts)
            then \<lparr>dr_state = d, dr_events = [], dr_return = False, dr_deferred = None\<rparr>
            else if fragment_index \<ge> frag_count \<or> frag_count = 0
                    \<or> payload_length > MAX_PAYLOAD_SIZE
            then \<lparr>dr_state = d,
                  dr_events = [Error (InvalidFragment fragment_index frag_count payload_length)],
                  dr_return = False, dr_deferred = None\<rparr>
            else accumulate_fragment d message_type msg_id fragment_index frag_count payload)))"

subsection \<open>Reading a packet's header\<close>

text \<open>
  The header fields as \<open>decode_packet\<close> reads them, named for the statements below, and
  the packets that pass every filter of the first half of \<open>decode_packet\<close> (magic byte,
  length, version, source, type filter, fragment validity).
\<close>

definition packet_version :: "buffer \<Rightarrow> nat" where
  "packet_version p = drop_bit 6 (readUInt8 p 1) AND 0x03"

definition packet_type :: "buffer \<Rightarrow> nat" where
  "packet_type p = readUInt8 p 1 AND 0x3F"

definition packet_message_id :: "buffer \<Rightarrow> nat" where
  "packet_message_id p = readUInt16LE p 2"

definition packet_fragment_index :: "buffer \<Rightarrow> nat" where
  "packet_fragment_index p = readUInt16LE p 4"

definition packet_fragment_count :: "buffer \<Rightarrow> nat" where
  "packet_fragment_count p = readUInt16LE p 6"

definition packet_source_id :: "buffer \<Rightarrow> 32 word" where
  "packet_source_id p = readUInt32LE p 8"

definition packet_payload :: "buffer \<Rightarrow> buffer" where
  "packet_payload p = drop 12 p"

definition passes_filters :: "decoder \<Rightarrow> buffer \<Rightarrow> bool" where
  "passes_filters d p \<longleftrightarrow>
     length p \<ge> 12 \<and> readUInt8 p 0 = MAGIC_BYTE \<and> packet_version p = VERSION
     \<and> packet_source_id p = source_id d
     \<and> (case message_types d of None \<Rightarrow> True | Some ts \<Rightarrow> packet_type p \<in> ts)
     \<and> packet_fragment_index p < packet_fragment_count p
     \<and> length (packet_payload p) \<le> MAX_PAYLOAD_SIZE"

text \<open>The result of a call that ignores its packet without a trace.\<close>

definition silent :: "decoder \<Rightarrow> decode_result" where
  "silent d = \<lparr>dr_state = d, dr_events = [], dr_return = False, dr_deferred = None\<rparr>"

subsection \<open>The packets of a message\<close>

text \<open>
  The twelve header bytes that the writes of \<open>write_packet\<close> leave in the packet
  buffer, the slice of the message that its \<open>copy\<close> puts behind them, and the
  information object that goes with the packet in the \<open>packet\<close> event (see the lemmas
  \<open>write_packet_bytes\<close> and \<open>encode_loop_events\<close>).
\<close>

definition jtp_header :: "32 word \<Rightarrow> int \<Rightarrow> nat \<Rightarrow> nat \<Rightarrow> nat \<Rightarrow> buffer" where
  "jtp_header sid message_type msg_id fragment_index frag_count =
     [of_nat MAGIC_BYTE,
      of_nat (nat (push_bit 6 (int VERSION) OR (message_type AND 0x3F))),
      of_nat (msg_id mod 256), of_nat (msg_id div 256),
      of_nat (fragment_index mod 256), of_nat (fragment_index div 256),
      of_nat (frag_count mod 256), of_nat (frag_count div 256),
      of_nat (unat sid mod 256), of_nat (unat sid div 256 mod 256),
      of_nat (unat sid div 65536 mod 256), of_nat (unat sid div 16777216)]"

definition fragment_payload :: "buffer \<Rightarrow> nat \<Rightarrow> buffer" where
  "fragment_payload message_buffer fragment_index =
     take MAX_PAYLOAD_SIZE (drop (fragment_index * MAX_PAYLOAD_SIZE) message_buffer)"

definition emitted_info :: "int \<Rightarrow> nat \<Rightarrow> nat \<Rightarrow> buffer \<Rightarrow> nat \<Rightarrow> packet_info" where
  "emitted_info mt mid fc mb i =
     \<lparr>pi_message_id = mid, pi_message_type = mt, pi_fragment_index = i,
      pi_fragment_count = fc, pi_fragment_size = length (fragment_payload mb i)\<rparr>"

subsection \<open>Runs of a decoder\<close>

text \<open>
  What happens to a decoder between its construction and any later moment: calls of
  \<open>decode_packet\<close>, calls of \<open>reset_message_state\<close>, and runs of a reassembly that
  \<open>decode_packet\<close> deferred with \<open>setImmediate\<close> (at any later moment, with any
  arguments).
\<close>

datatype dec_op = Accept buffer | Reset "nat option" | Reassemble nat nat

fun apply_op :: "decoder \<Rightarrow> dec_op \<Rightarrow> decoder" where
  "apply_op d (Accept p) = dr_state (decode_packet d p)"
| "apply_op d (Reset t) = reset_message_state d t"
| "apply_op d (Reassemble t m) = fst (reassemble_message d t m)"

definition run_ops :: "decoder \<Rightarrow> dec_op list \<Rightarrow> decoder" where
  "run_ops d ops = foldl apply_op d ops"

text \<open>
  The consistency of the counters of an accumulator with its map of fragments, and of
  every accumulator of a decoder.
\<close>

definition accumulator_invariant :: "accumulator \<Rightarrow> bool" where
  "accumulator_invariant acc \<longleftrightarrow>
     finite (dom (fragments acc))
     \<and> fragments_received acc = card (dom (fragments acc))
     \<and> message_len acc = (\<Sum>i\<in>dom (fragments acc). length (the (fragments acc i)))
     \<and> fragments_received acc \<le> fragment_count acc"

definition decoder_invariant :: "decoder \<Rightarrow> bool" where
  "decoder_invariant d \<longleftrightarrow> (\<forall>t acc. accumulators d t = Some acc \<longrightarrow> accumulator_invariant acc)"

subsection \<open>Delivery of packets\<close>

text \<open>The \<open>message\<close> events among the events of a decoder.\<close>

fun is_message :: "dec_event \<Rightarrow> bool" where
  "is_message (Message buf t md) = True"
| "is_message ev = False"

text \<open>
  The delivery of a list of packets to a decoder, one call of \<open>decode_packet\<close> after
  the other (as \<open>packets.forEach(packet => decoder.decode_packet(packet))\<close> in the tests):
  the decoder at the end, all events in the order of their emission, and the reassemblies
  that were deferred.
\<close>

fun decode_packets :: "decoder \<Rightarrow> buffer list \<Rightarrow> decoder \<times> dec_event list \<times> (nat \<times> nat) list" where
  "decode_packets d [] = (d, [], [])"
| "decode_packets d (p # ps) =
     (let r = decode_packet d p;
          (d', evs, deferred) = decode_packets (dr_state r) ps
      in (d', dr_events r @ evs,
          (case dr_deferred r of None \<Rightarrow> [] | Some w \<Rightarrow> [w]) @ deferred))"

text \<open>
  The accumulator of message \<open>mid\<close> with the fragments \<open>frag 0, \<dots>, frag (fc - 1)\<close> when
  exactly the fragments with an index in \<open>I\<close> have been stored.
\<close>

definition partial_accumulator :: "nat \<Rightarrow> nat \<Rightarrow> (nat \<Rightarrow> buffer) \<Rightarrow> nat set \<Rightarrow> accumulator" where
  "partial_accumulator mid fc frag I =
     \<lparr>message_id = mid, fragment_count = fc, fragments_received = card I,
      fragments = (\<lambda>i. if i \<in> I then Some (frag i) else None),
      message_len = (\<Sum>i\<in>I. length (frag i)), valid = True\<rparr>"

subsection \<open>Example packets\<close>

text \<open>
  Packets of source 0 and message type 5, each with a payload of one byte: fragment 0 of 2
  of message 0 (and once more with another payload, of two bytes), fragment 1 of 2 of the messages 0, 32768 and 65535, fragment 5 of 10 of
  message 0, and the only fragment of message 9 of type 7.
\<close>

definition pkt_id0_frag0of2 :: buffer where
  "pkt_id0_frag0of2 = [0x4A, 5, 0, 0, 0, 0, 2, 0, 0, 0, 0, 0, 0xAA]"

definition pkt_id0_frag0of2_other :: buffer where
  "pkt_id0_frag0of2_other = [0x4A, 5, 0, 0, 0, 0, 2, 0, 0, 0, 0, 0, 0xEE, 0xEF]"

definition pkt_id0_frag1of2 :: buffer where
  "pkt_id0_frag1of2 = [0x4A, 5, 0, 0, 1, 0, 2, 0, 0, 0, 0, 0, 0xAB]"

definition pkt_id32768_frag1of2 :: buffer where
  "pkt_id32768_frag1of2 = [0x4A, 5, 0x00, 0x80, 1, 0, 2, 0, 0, 0, 0, 0, 0xBB]"

definition pkt_id65535_frag1of2 :: buffer where
  "pkt_id65535_frag1of2 = [0x4A, 5, 0xFF, 0xFF, 1, 0, 2, 0, 0, 0, 0, 0, 0xCC]"


definition pkt_type7_single :: buffer where
  "pkt_type7_single = [0x4A, 7, 9, 0, 0, 0, 1, 0, 0, 0, 0, 0, 0x11]"


section \<open>Properties\<close>

subsection \<open>Auxiliary facts\<close>

lemmas packet_defs = packet_version_def packet_type_def packet_message_id_def
  packet_fragment_index_def packet_fragment_count_def packet_source_id_def packet_payload_def

lemmas eval_defs = decode_packet_def accumulate_fragment_def reassemble_message_def
  reset_message_state_def new_decoder_def readUInt8_def readUInt16LE_def readUInt32LE_def
  MAGIC_BYTE_def VERSION_def MAX_PAYLOAD_SIZE_def allocUnsafe_def buffer_copy_def Let_def

lemma and_ffff: "(k::int) AND 0xFFFF = k mod 65536"
proof -
  have "k AND mask 16 = k mod 2 ^ 16"
    by (simp add: take_bit_eq_mod flip: take_bit_eq_mask)
  then show ?thesis by (simp add: mask_eq_exp_minus_1)
qed

lemma is_newer_message_mod:
  "is_newer_message a b \<longleftrightarrow>
     0 < (int a - int b) mod 65536 \<and> (int a - int b) mod 65536 < 32768"
  by (simp add: is_newer_message_def Let_def and_ffff)

lemma mod_swap:
  "((b::int) - a) mod 65536 =
     (if (a - b) mod 65536 = 0 then 0 else 65536 - (a - b) mod 65536)"
  using zmod_zminus1_eq_if [of "a - b" 65536] by simp

lemma decode_packet_accumulate:
  "passes_filters d p \<Longrightarrow>
   decode_packet d p = accumulate_fragment d (packet_type p) (packet_message_id p)
       (packet_fragment_index p) (packet_fragment_count p) (packet_payload p)"
  by (auto simp: passes_filters_def decode_packet_def packet_defs Let_def split: option.splits)

lemma decode_packet_rejected:
  "\<not> passes_filters d p \<Longrightarrow>
   dr_state (decode_packet d p) = d \<and> \<not> dr_return (decode_packet d p)
   \<and> dr_deferred (decode_packet d p) = None"
  by (auto simp: passes_filters_def decode_packet_def packet_defs Let_def split: option.splits)

subsection \<open>Stale fragments\<close>

text \<open>
  C2, as the code has it. A fragment that passed the filters and meets an accumulator of
  its type with message id \<open>old\<close> is ignored without a trace (no event, \<open>false\<close> returned,
  decoder unchanged) when its forward circular distance \<open>(incoming - old) mod 65536\<close> is
  greater than 32768. At the distance 32768 exactly neither id is newer than the other:
  the call returns \<open>false\<close> and leaves the decoder unchanged, but it emits the error
  \<open>Message ID mismatch\<close>.
\<close>

theorem stale_fragment_ignored:
  assumes "passes_filters d p" and "accumulators d (packet_type p) = Some acc"
  shows "((int (packet_message_id p) - int (message_id acc)) mod 65536 > 32768 \<longrightarrow>
           decode_packet d p = silent d)
       \<and> ((int (packet_message_id p) - int (message_id acc)) mod 65536 = 32768 \<longrightarrow>
           decode_packet d p = \<lparr>dr_state = d,
              dr_events = [Error (MessageIdMismatch (message_id acc) (packet_message_id p))],
              dr_return = False, dr_deferred = None\<rparr>)"
proof (intro conjI impI)
  assume far: "(int (packet_message_id p) - int (message_id acc)) mod 65536 > 32768"
  have "is_newer_message (message_id acc) (packet_message_id p)"
    using far mod_swap [of "int (message_id acc)" "int (packet_message_id p)"]
    by (simp add: is_newer_message_mod split: if_splits)
  then show "decode_packet d p = silent d"
    using assms by (simp add: decode_packet_accumulate accumulate_fragment_def silent_def)
next
  assume half: "(int (packet_message_id p) - int (message_id acc)) mod 65536 = 32768"
  have a: "\<not> is_newer_message (message_id acc) (packet_message_id p)"
    using half mod_swap [of "int (message_id acc)" "int (packet_message_id p)"]
    by (simp add: is_newer_message_mod split: if_splits)
  have b: "\<not> is_newer_message (packet_message_id p) (message_id acc)"
    using half by (simp add: is_newer_message_mod)
  have c: "packet_message_id p \<noteq> message_id acc"
    using half by auto
  show "decode_packet d p = \<lparr>dr_state = d,
              dr_events = [Error (MessageIdMismatch (message_id acc) (packet_message_id p))],
              dr_return = False, dr_deferred = None\<rparr>"
    using assms a b c by (simp add: decode_packet_accumulate accumulate_fragment_def)
qed

theorem stale_fragment_ignored_witness:
  "passes_filters (dr_state (decode_packet (new_decoder 0 None) pkt_id0_frag0of2))
     pkt_id65535_frag1of2
   \<and> (int (packet_message_id pkt_id65535_frag1of2) - int 0) mod 65536 > 32768
   \<and> decode_packet (dr_state (decode_packet (new_decoder 0 None) pkt_id0_frag0of2))
         pkt_id65535_frag1of2
       = silent (dr_state (decode_packet (new_decoder 0 None) pkt_id0_frag0of2))"
  using stale_fragment_ignored
    [of "dr_state (decode_packet (new_decoder 0 None) pkt_id0_frag0of2)"
        pkt_id65535_frag1of2
        "\<lparr>message_id = 0, fragment_count = 2, fragments_received = 1,
          fragments = [0 \<mapsto> [0xAA]], message_len = 1, valid = True\<rparr>"]
  by (simp add: eval_defs passes_filters_def packet_defs is_newer_message_mod
        pkt_id65535_frag1of2_def pkt_id0_frag0of2_def)

text \<open>
  The claim as the specification states it fails at the distance 32768: with message 0 of
  type 5 in flight, fragment 1 of message 32768 is a valid fragment at forward distance
  32768, and the call emits an error event.
\<close>

theorem stale_boundary_counterexample:
  "passes_filters (dr_state (decode_packet (new_decoder 0 None) pkt_id0_frag0of2))
     pkt_id32768_frag1of2
   \<and> accumulators (dr_state (decode_packet (new_decoder 0 None) pkt_id0_frag0of2)) 5 \<noteq> None
   \<and> (int (packet_message_id pkt_id32768_frag1of2) - int 0) mod 65536 \<ge> 32768
   \<and> dr_events (decode_packet
          (dr_state (decode_packet (new_decoder 0 None) pkt_id0_frag0of2))
          pkt_id32768_frag1of2) = [Error (MessageIdMismatch 0 32768)]"
  by (simp add: eval_defs passes_filters_def packet_defs is_newer_message_mod
        pkt_id32768_frag1of2_def pkt_id0_frag0of2_def)

subsection \<open>Facts about \<open>accumulate_fragment\<close> and \<open>encode_message\<close>\<close>

lemma ceil_div_ceiling: "0 < b \<Longrightarrow> int (ceil_div a b) = \<lceil>real a / real b\<rceil>"
proof -
  assume b: "0 < b"
  have "\<lceil>real a / real b\<rceil> = \<lceil>of_int (int a) / (of_int (int b) :: real)\<rceil>" by simp
  also have "\<dots> = - (- int a div int b)" by (rule ceiling_divide_eq_div)
  also have "\<dots> = int ((a + b - 1) div b)"
  proof -
    have 1: "(a + b - 1) div b = a div b + (if a mod b = 0 then 0 else 1)"
    proof (cases "a mod b = 0")
      case True
      then have "a + b - 1 = (b - 1) + (a div b) * b" using b by auto
      then have "(a + b - 1) div b = a div b + (b - 1) div b"
        using b by (metis add.commute div_mult_self3 less_numeral_extra(3))
      then show ?thesis using True b by simp
    next
      case False
      then have pos: "0 < a mod b" by simp
      then have "0 < a" using mod_less_eq_dividend [of a b] by linarith
      with pos have "a + b - 1 = (a mod b - 1) + (a div b + 1) * b"
        using b by (simp add: algebra_simps)
      then have "(a + b - 1) div b = (a div b + 1) + (a mod b - 1) div b"
        using b by (metis add.commute div_mult_self3 less_numeral_extra(3))
      moreover have "a mod b - 1 < b" using b by (meson less_imp_diff_less mod_less_divisor)
      ultimately show ?thesis using False by simp
    qed
    have 2: "- int a div int b = (if int a mod int b = 0 then - (int a div int b) else - (int a div int b) - 1)"
      using b by (simp add: zdiv_zminus1_eq_if)
    have 3: "(int a mod int b = 0) \<longleftrightarrow> (a mod b = 0)"
      unfolding zmod_int [symmetric] by simp
    show ?thesis unfolding 2 3 1 by (simp add: zdiv_int)
  qed
  finally show ?thesis by (simp add: ceil_div_def)
qed

lemma is_newer_message_irrefl: "\<not> is_newer_message m m"
  by (simp add: is_newer_message_mod)

lemma accumulate_fragment_frame:
  "t' \<noteq> t \<Longrightarrow> accumulators (dr_state (accumulate_fragment d t m i c pl)) t' = accumulators d t'"
  by (auto simp: accumulate_fragment_def Let_def reassemble_message_def reset_message_state_def
      split: option.splits prod.splits if_splits sum.splits)

lemma accumulate_fragment_config:
  "source_id (dr_state (accumulate_fragment d t m i c pl)) = source_id d
   \<and> message_types (dr_state (accumulate_fragment d t m i c pl)) = message_types d"
  by (auto simp: accumulate_fragment_def Let_def reassemble_message_def reset_message_state_def
      split: option.splits prod.splits if_splits sum.splits)

lemma decode_packet_config:
  "source_id (dr_state (decode_packet d p)) = source_id d
   \<and> message_types (dr_state (decode_packet d p)) = message_types d"
  by (cases "passes_filters d p")
     (simp_all add: decode_packet_accumulate accumulate_fragment_config decode_packet_rejected)

lemma passes_filters_cong:
  "source_id d' = source_id d \<Longrightarrow> message_types d' = message_types d \<Longrightarrow>
   passes_filters d' p = passes_filters d p"
  by (simp add: passes_filters_def)

lemma accumulate_fragment_stored_aux:
  "case accumulators (dr_state (accumulate_fragment d t m i c pl)) t of
     None \<Rightarrow> True
   | Some acc \<Rightarrow> message_id acc = m \<longrightarrow> fragments acc i \<noteq> None"
  by (auto simp: accumulate_fragment_def Let_def reassemble_message_def reset_message_state_def
       is_newer_message_irrefl
      split: option.splits prod.splits if_splits sum.splits)

lemma accumulate_fragment_stored:
  "accumulators (dr_state (accumulate_fragment d t m i c pl)) t = Some acc \<Longrightarrow>
   message_id acc = m \<Longrightarrow> fragments acc i \<noteq> None"
  using accumulate_fragment_stored_aux [where d=d and t=t and m=m and i=i and c=c and pl=pl] by simp

lemma accumulate_fragment_duplicate:
  "accumulators d t = Some acc \<Longrightarrow> message_id acc = m \<Longrightarrow> fragments acc i \<noteq> None \<Longrightarrow>
   accumulate_fragment d t m i c pl =
     \<lparr>dr_state = d, dr_events = [Error (DuplicateFragment i m)], dr_return = False,
      dr_deferred = None\<rparr>"
  by (auto simp: accumulate_fragment_def Let_def is_newer_message_irrefl)

lemma accumulate_fragment_true_no_duplicate:
  "dr_return (accumulate_fragment d t m i c pl) \<Longrightarrow>
   Error (DuplicateFragment j k) \<notin> set (dr_events (accumulate_fragment d t m i c pl))"
  by (auto simp: accumulate_fragment_def Let_def reassemble_message_def reset_message_state_def
      split: option.splits prod.splits if_splits sum.splits)

lemma encode_loop_counter:
  "enc_message_id (fst (encode_loop e mb mt mid fc idxs)) = enc_message_id e
   \<and> enc_source_id (fst (encode_loop e mb mt mid fc idxs)) = enc_source_id e"
  by (induction idxs arbitrary: e)
     (simp_all add: Let_def case_prod_unfold split: option.splits)

text \<open>
  The counter of an encoder stays below 65536 from the construction on, so the bound on
  it in the statements below holds for every encoder the class can produce.
\<close>

lemma encoder_counter_bounded:
  "enc_message_id (new_encoder sid) \<le> 0xFFFF"
  "enc_message_id e \<le> 0xFFFF \<Longrightarrow> enc_message_id (fst (encode_message e v mt)) \<le> 0xFFFF"
  "enc_message_id e \<le> 0xFFFF \<Longrightarrow> enc_message_id (fst (run_enc_deferred e w)) \<le> 0xFFFF"
  "enc_message_id e \<le> 0xFFFF \<Longrightarrow> enc_message_id (return_buffer e b) \<le> 0xFFFF"
proof -
  show "enc_message_id (new_encoder sid) \<le> 0xFFFF"
    by (simp add: new_encoder_def)
  show "enc_message_id e \<le> 0xFFFF \<Longrightarrow> enc_message_id (fst (encode_message e v mt)) \<le> 0xFFFF"
    by (auto simp: encode_message_def increment_message_id_def Let_def split: js_value.splits)
  show "enc_message_id e \<le> 0xFFFF \<Longrightarrow> enc_message_id (fst (run_enc_deferred e w)) \<le> 0xFFFF"
    by (cases w) (simp_all add: encode_message_async_def encode_loop_counter)
  show "enc_message_id e \<le> 0xFFFF \<Longrightarrow> enc_message_id (return_buffer e b) \<le> 0xFFFF"
    by (simp add: return_buffer_def)
qed

subsection \<open>Isolation of message types\<close>

text \<open>
  C9. A call of \<open>decode_packet\<close> leaves the accumulator of every message type other than
  the type of its packet as it was, whatever the call does with the packet (store,
  complete, reject with an error, or ignore); so does a deferred \<open>_reassemble_message\<close>
  for one type; and \<open>reset_message_state(t)\<close> removes the accumulator of \<open>t\<close> only.
\<close>

theorem type_isolation:
  "(t' \<noteq> packet_type p \<longrightarrow>
      accumulators (dr_state (decode_packet d p)) t' = accumulators d t')
   \<and> (t' \<noteq> t \<longrightarrow>
      accumulators (fst (reassemble_message d t m)) t' = accumulators d t')
   \<and> accumulators (reset_message_state d (Some t)) = (accumulators d)(t := None)"
proof (intro conjI impI)
  assume "t' \<noteq> packet_type p"
  then show "accumulators (dr_state (decode_packet d p)) t' = accumulators d t'"
    by (cases "passes_filters d p")
       (simp_all add: decode_packet_accumulate accumulate_fragment_frame decode_packet_rejected)
next
  assume "t' \<noteq> t"
  then show "accumulators (fst (reassemble_message d t m)) t' = accumulators d t'"
    by (simp add: reassemble_message_def reset_message_state_def Let_def split: option.splits)
next
  show "accumulators (reset_message_state d (Some t)) = (accumulators d)(t := None)"
    by (simp add: reset_message_state_def)
qed

theorem type_isolation_witness:
  "5 \<noteq> packet_type pkt_type7_single
   \<and> accumulators (dr_state (decode_packet (new_decoder 0 None) pkt_id0_frag0of2)) 5 =
       Some \<lparr>message_id = 0, fragment_count = 2, fragments_received = 1,
             fragments = [0 \<mapsto> [0xAA]], message_len = 1, valid = True\<rparr>
   \<and> accumulators (dr_state (decode_packet
         (dr_state (decode_packet (new_decoder 0 None) pkt_id0_frag0of2)) pkt_type7_single)) 5 =
       Some \<lparr>message_id = 0, fragment_count = 2, fragments_received = 1,
             fragments = [0 \<mapsto> [0xAA]], message_len = 1, valid = True\<rparr>"
  using type_isolation
    [of 5 pkt_type7_single "dr_state (decode_packet (new_decoder 0 None) pkt_id0_frag0of2)"]
  by (simp add: eval_defs packet_defs is_newer_message_mod pkt_id0_frag0of2_def
        pkt_type7_single_def)

subsection \<open>Duplicate fragments\<close>

text \<open>
  C7. When a valid fragment has been delivered and the accumulator of its type still holds
  its message id, the delivery of a valid fragment with the same message type, message id
  and fragment index (the same packet again, or another one) emits exactly one event, the
  error \<open>Duplicate fragment\<close>, returns \<open>false\<close> and leaves the decoder as it was (so
  \<open>fragments_received\<close>, \<open>message_len\<close> and the stored payload are unchanged). A first
  delivery that was processed (returned \<open>true\<close>) emitted no such error.
\<close>

theorem duplicate_fragment_rejected:
  assumes "passes_filters d p" and "passes_filters d p'"
    and "packet_type p' = packet_type p"
    and "packet_message_id p' = packet_message_id p"
    and "packet_fragment_index p' = packet_fragment_index p"
    and "accumulators (dr_state (decode_packet d p)) (packet_type p) = Some acc"
    and "message_id acc = packet_message_id p"
  shows "decode_packet (dr_state (decode_packet d p)) p' =
           \<lparr>dr_state = dr_state (decode_packet d p),
            dr_events = [Error (DuplicateFragment (packet_fragment_index p)
                                  (packet_message_id p))],
            dr_return = False, dr_deferred = None\<rparr>
         \<and> (dr_return (decode_packet d p) \<longrightarrow>
              Error (DuplicateFragment (packet_fragment_index p) (packet_message_id p))
                \<notin> set (dr_events (decode_packet d p)))"
proof -
  let ?d1 = "dr_state (decode_packet d p)"
  have pass: "passes_filters ?d1 p'"
    using assms(2) passes_filters_cong [of ?d1 d p'] decode_packet_config [of d p] by simp
  have stored: "fragments acc (packet_fragment_index p) \<noteq> None"
    using assms(1,6,7) accumulate_fragment_stored by (simp add: decode_packet_accumulate)
  have "decode_packet ?d1 p' =
           \<lparr>dr_state = ?d1,
            dr_events = [Error (DuplicateFragment (packet_fragment_index p)
                                  (packet_message_id p))],
            dr_return = False, dr_deferred = None\<rparr>"
    using pass assms(3-7) stored
    by (simp add: decode_packet_accumulate accumulate_fragment_duplicate)
  moreover have "dr_return (decode_packet d p) \<longrightarrow>
              Error (DuplicateFragment (packet_fragment_index p) (packet_message_id p))
                \<notin> set (dr_events (decode_packet d p))"
    using assms(1) accumulate_fragment_true_no_duplicate
    by (simp add: decode_packet_accumulate)
  ultimately show ?thesis by simp
qed

theorem duplicate_fragment_rejected_witness:
  "passes_filters (new_decoder 0 None) pkt_id0_frag0of2
   \<and> passes_filters (new_decoder 0 None) pkt_id0_frag0of2_other
   \<and> dr_events (decode_packet (new_decoder 0 None) pkt_id0_frag0of2) =
       [MessageStart 5 0 2, FragmentReceived 5 0 0 2 1]
   \<and> decode_packet (dr_state (decode_packet (new_decoder 0 None) pkt_id0_frag0of2))
         pkt_id0_frag0of2 =
       \<lparr>dr_state = dr_state (decode_packet (new_decoder 0 None) pkt_id0_frag0of2),
        dr_events = [Error (DuplicateFragment 0 0)],
        dr_return = False, dr_deferred = None\<rparr>
   \<and> decode_packet (dr_state (decode_packet (new_decoder 0 None) pkt_id0_frag0of2))
         pkt_id0_frag0of2_other =
       \<lparr>dr_state = dr_state (decode_packet (new_decoder 0 None) pkt_id0_frag0of2),
        dr_events = [Error (DuplicateFragment 0 0)],
        dr_return = False, dr_deferred = None\<rparr>"
  using duplicate_fragment_rejected
    [of "new_decoder 0 None" pkt_id0_frag0of2 pkt_id0_frag0of2
        "\<lparr>message_id = 0, fragment_count = 2, fragments_received = 1,
          fragments = [0 \<mapsto> [0xAA]], message_len = 1, valid = True\<rparr>"]
    duplicate_fragment_rejected
    [of "new_decoder 0 None" pkt_id0_frag0of2 pkt_id0_frag0of2_other
        "\<lparr>message_id = 0, fragment_count = 2, fragments_received = 1,
          fragments = [0 \<mapsto> [0xAA]], message_len = 1, valid = True\<rparr>"]
  by (simp add: eval_defs passes_filters_def packet_defs is_newer_message_mod
        pkt_id0_frag0of2_def pkt_id0_frag0of2_other_def)

subsection \<open>The message id counter of the encoder\<close>

text \<open>
  C5. \<open>encode_message\<close> with a message type outside 0..63, with an input that is not a
  buffer, or with a buffer that needs more than 65535 fragments returns \<open>null\<close>, leaves the
  encoder (and so its counter) unchanged and defers only the emission of one error: no
  packet is emitted. Otherwise it returns the counter's value and leaves the counter at
  that value plus one modulo 65536; the deferred encoding does not touch the counter.
\<close>

theorem encode_message_counter:
  "(message_type < 0 \<or> 63 < message_type \<longrightarrow>
      encode_message e v message_type = (e, None, EmitError (InvalidMessageType message_type)))
   \<and> (0 \<le> message_type \<and> message_type \<le> 63 \<longrightarrow>
      encode_message e NotABuffer message_type = (e, None, EmitError InvalidInputType))
   \<and> (0 \<le> message_type \<and> message_type \<le> 63
        \<and> 65535 < max 1 \<lceil>real (length bytes) / real MAX_PAYLOAD_SIZE\<rceil> \<longrightarrow>
      encode_message e (Buffer bytes) message_type =
        (e, None, EmitError (MessageTooLarge (length bytes))))
   \<and> (0 \<le> message_type \<and> message_type \<le> 63
        \<and> max 1 \<lceil>real (length bytes) / real MAX_PAYLOAD_SIZE\<rceil> \<le> 65535 \<longrightarrow>
      encode_message e (Buffer bytes) message_type =
        (e\<lparr>enc_message_id := (enc_message_id e + 1) mod 65536\<rparr>,
         Some (enc_message_id e),
         EncodeAsync bytes message_type (enc_message_id e)
           (nat (max 1 \<lceil>real (length bytes) / real MAX_PAYLOAD_SIZE\<rceil>))))
   \<and> run_enc_deferred e' (EmitError err) = (e', [EncError err])
   \<and> enc_message_id (fst (run_enc_deferred e' work)) = enc_message_id e'"
proof -
  have c: "int (ceil_div (length bytes) MAX_PAYLOAD_SIZE)
             = \<lceil>real (length bytes) / real MAX_PAYLOAD_SIZE\<rceil>"
    by (rule ceil_div_ceiling) (simp add: MAX_PAYLOAD_SIZE_def)
  have m: "int (max 1 (ceil_div (length bytes) MAX_PAYLOAD_SIZE))
             = max 1 \<lceil>real (length bytes) / real MAX_PAYLOAD_SIZE\<rceil>"
    by (simp only: of_nat_max of_nat_1 c)
  have w: "enc_message_id (fst (run_enc_deferred e' work)) = enc_message_id e'"
    by (cases work) (simp_all add: encode_message_async_def encode_loop_counter)
  show ?thesis
    using m w by (auto simp: encode_message_def Let_def increment_message_id_def
                    simp flip: m)
qed

theorem encode_message_counter_witness:
  "encode_message (new_encoder 7) (Buffer [1, 2, 3]) (-1) =
     (new_encoder 7, None, EmitError (InvalidMessageType (-1)))
   \<and> encode_message (new_encoder 7) NotABuffer 5 = (new_encoder 7, None, EmitError InvalidInputType)
   \<and> encode_message (new_encoder 7) (Buffer (replicate 78642001 0)) 5 =
      (new_encoder 7, None, EmitError (MessageTooLarge 78642001))
   \<and> encode_message ((new_encoder 7)\<lparr>enc_message_id := 65535\<rparr>) (Buffer [1, 2, 3]) 5 =
      ((new_encoder 7)\<lparr>enc_message_id := 0\<rparr>, Some 65535, EncodeAsync [1, 2, 3] 5 65535 1)"
  using encode_message_counter [of "-1" "new_encoder 7" "Buffer [1, 2, 3]"]
        encode_message_counter [of 5 "new_encoder 7" _  "replicate 78642001 0"]
        encode_message_counter [of 5 "(new_encoder 7)\<lparr>enc_message_id := 65535\<rparr>" _ "[1, 2, 3]"]
  by (simp add: MAX_PAYLOAD_SIZE_def new_encoder_def)

subsection \<open>Consistency of the accumulators\<close>

lemma accumulator_invariant_store:
  assumes "accumulator_invariant acc" and "fragments acc i = None"
    and "fragments_received acc + 1 \<le> fragment_count acc"
  shows "accumulator_invariant
           (acc\<lparr>fragments := (fragments acc)(i \<mapsto> pl),
                fragments_received := fragments_received acc + 1,
                message_len := message_len acc + length pl\<rparr>)"
proof -
  have fin: "finite (dom (fragments acc))" and notin: "i \<notin> dom (fragments acc)"
    using assms by (auto simp: accumulator_invariant_def)
  have "(\<Sum>j\<in>dom (fragments acc). length (the (((fragments acc)(i \<mapsto> pl)) j)))
        = (\<Sum>j\<in>dom (fragments acc). length (the (fragments acc j)))"
    using notin by (intro sum.cong) auto
  then show ?thesis
    using assms fin notin by (simp add: accumulator_invariant_def)
qed

lemma accumulator_invariant_fresh:
  "accumulator_invariant \<lparr>message_id = m, fragment_count = c, fragments_received = 0,
      fragments = Map.empty, message_len = 0, valid = True\<rparr>"
  by (simp add: accumulator_invariant_def)

lemma reset_invariant: "decoder_invariant d \<Longrightarrow> decoder_invariant (reset_message_state d t)"
  by (auto simp: decoder_invariant_def reset_message_state_def split: option.splits if_splits)

lemma reassemble_invariant:
  "decoder_invariant d \<Longrightarrow> decoder_invariant (fst (reassemble_message d t m))"
  by (auto simp: reassemble_message_def Let_def reset_invariant split: option.splits)

lemma set_invariant:
  "decoder_invariant d \<Longrightarrow> accumulator_invariant acc \<Longrightarrow>
   decoder_invariant (d\<lparr>accumulators := (accumulators d)(t \<mapsto> acc)\<rparr>)"
  by (auto simp: decoder_invariant_def)

lemma accumulate_fragment_invariant:
  assumes "decoder_invariant d"
  shows "decoder_invariant (dr_state (accumulate_fragment d t m i c pl))"
proof -
  let ?fresh = "\<lparr>message_id = m, fragment_count = c, fragments_received = 0,
      fragments = Map.empty, message_len = 0, valid = True\<rparr>"
  have fresh_store: "accumulator_invariant
           (?fresh\<lparr>fragments := (fragments ?fresh)(i \<mapsto> pl),
                fragments_received := fragments_received ?fresh + 1,
                message_len := message_len ?fresh + length pl\<rparr>)" if "1 \<le> c"
    using that by (intro accumulator_invariant_store accumulator_invariant_fresh) simp_all
  have old_store: "accumulator_invariant
           (a\<lparr>fragments := (fragments a)(i \<mapsto> pl),
                fragments_received := fragments_received a + 1,
                message_len := message_len a + length pl\<rparr>)"
    if "accumulators d t = Some a" "fragments a i = None"
       "fragments_received a + 1 \<le> fragment_count a" for a
    using that assms by (intro accumulator_invariant_store) (auto simp: decoder_invariant_def)
  show ?thesis
  proof (cases "accumulators d t")
    case None
    then show ?thesis
      using assms fresh_store
      by (auto simp: accumulate_fragment_def Let_def reassemble_message_def
            reset_message_state_def decoder_invariant_def accumulator_invariant_fresh
          split: option.splits if_splits)
  next
    case (Some a)
    then show ?thesis
      using assms fresh_store old_store [of a]
      by (auto simp: accumulate_fragment_def Let_def reassemble_message_def
            reset_message_state_def decoder_invariant_def accumulator_invariant_fresh
          split: option.splits if_splits)
  qed
qed


lemma decode_packet_invariant:
  "decoder_invariant d \<Longrightarrow> decoder_invariant (dr_state (decode_packet d p))"
  by (cases "passes_filters d p")
     (simp_all add: decode_packet_accumulate accumulate_fragment_invariant decode_packet_rejected)

lemma apply_op_invariant: "decoder_invariant d \<Longrightarrow> decoder_invariant (apply_op d op)"
  by (cases op) (simp_all add: decode_packet_invariant reset_invariant reassemble_invariant)

lemma run_ops_invariant: "decoder_invariant d \<Longrightarrow> decoder_invariant (run_ops d ops)"
  unfolding run_ops_def
  by (induction ops arbitrary: d) (simp_all add: apply_op_invariant)

lemma new_decoder_invariant: "decoder_invariant (new_decoder sid ts)"
  by (simp add: decoder_invariant_def new_decoder_def)

subsection \<open>Reassembly\<close>

lemma buffer_copy_whole:
  "off + length frag \<le> length buf \<Longrightarrow>
   buffer_copy frag buf off 0 (length frag) = take off buf @ frag @ drop (off + length frag) buf"
  by (cases frag) (auto simp: buffer_copy_def Let_def)

lemma copy_fragments_present:
  assumes "\<forall>i\<in>set idxs. frags i \<noteq> None"
    and "off + length (concat (map (\<lambda>i. the (frags i)) idxs)) \<le> length buf"
  shows "copy_fragments frags idxs buf off =
           Inr (take off buf @ concat (map (\<lambda>i. the (frags i)) idxs)
                @ drop (off + length (concat (map (\<lambda>i. the (frags i)) idxs))) buf)"
  using assms
proof (induction idxs arbitrary: buf off)
  case Nil
  then show ?case by simp
next
  case (Cons i idxs)
  from Cons.prems obtain frag where frag: "frags i = Some frag" by auto
  let ?rest = "concat (map (\<lambda>i. the (frags i)) idxs)"
  let ?buf' = "take off buf @ frag @ drop (off + length frag) buf"
  have len: "off + length frag + length ?rest \<le> length buf"
    using Cons.prems frag by simp
  have copy: "buffer_copy frag buf off 0 (length frag) = ?buf'"
    using len by (intro buffer_copy_whole) simp
  have len': "length ?buf' = length buf" using len by simp
  have ih: "copy_fragments frags idxs ?buf' (off + length frag) =
          Inr (take (off + length frag) ?buf' @ ?rest
                @ drop (off + length frag + length ?rest) ?buf')"
    using Cons.prems len by (intro Cons.IH) (simp_all add: len')
  have t: "take (off + length frag) ?buf' = take off buf @ frag"
    using len by simp
  have d: "drop (off + length frag + length ?rest) ?buf'
             = drop (off + length frag + length ?rest) buf"
    using len by (simp add: ac_simps)
  show ?case
    using frag copy ih t d by (simp add: add.assoc)
qed

lemma copy_fragments_missing:
  "i \<in> set idxs \<Longrightarrow> frags i = None \<Longrightarrow> \<exists>j. copy_fragments frags idxs buf off = Inl j"
  by (induction idxs arbitrary: buf off) (auto split: option.splits)


lemma accumulate_fragment_store:
  assumes "accumulators d t = Some acc" and "message_id acc = m" and "fragments acc i = None"
  shows "accumulate_fragment d t m i c pl =
     (let acc' = acc\<lparr>fragments := (fragments acc)(i \<mapsto> pl),
                      fragments_received := fragments_received acc + 1,
                      message_len := message_len acc + length pl\<rparr>;
          d2 = d\<lparr>accumulators := (accumulators d)(t \<mapsto> acc')\<rparr>;
          received = [FragmentReceived t m i c (fragments_received acc + 1)]
      in if fragments_received acc + 1 > fragment_count acc
         then \<lparr>dr_state = reset_message_state d2 (Some t),
               dr_events = [Error (FragmentCountExceeded (fragments_received acc + 1)
                                     (fragment_count acc))],
               dr_return = False, dr_deferred = None\<rparr>
         else if fragments_received acc + 1 = fragment_count acc
         then (if fragment_count acc > 100 \<or> message_len acc + length pl > 64 * 1024
               then \<lparr>dr_state = d2, dr_events = received, dr_return = True,
                     dr_deferred = Some (t, m)\<rparr>
               else \<lparr>dr_state = fst (reassemble_message d2 t m),
                     dr_events = received @ snd (reassemble_message d2 t m),
                     dr_return = True, dr_deferred = None\<rparr>)
         else \<lparr>dr_state = d2, dr_events = received, dr_return = True,
               dr_deferred = None\<rparr>)"
  using assms
  by (simp add: accumulate_fragment_def Let_def is_newer_message_irrefl case_prod_unfold)

lemma is_newer_message_asym: "is_newer_message a b \<Longrightarrow> \<not> is_newer_message b a"
  using mod_swap [of "int a" "int b"] by (auto simp: is_newer_message_mod split: if_splits)

lemma accumulate_fragment_new:
  assumes "case accumulators d t of None \<Rightarrow> True | Some a \<Rightarrow> is_newer_message m (message_id a)"
  shows "accumulate_fragment d t m i c pl =
     (let acc' = \<lparr>message_id = m, fragment_count = c, fragments_received = 1,
                   fragments = [i \<mapsto> pl], message_len = length pl, valid = True\<rparr>;
          d2 = d\<lparr>accumulators := (accumulators d)(t \<mapsto> acc')\<rparr>;
          started = (case accumulators d t of
                       None \<Rightarrow> []
                     | Some a \<Rightarrow> [MessageIncomplete t (message_id a) (fragments_received a)
                                    (fragment_count a)])
                    @ [MessageStart t m c];
          received = started @ [FragmentReceived t m i c 1]
      in if 1 > c
         then \<lparr>dr_state = reset_message_state d2 (Some t),
               dr_events = started @ [Error (FragmentCountExceeded 1 c)],
               dr_return = False, dr_deferred = None\<rparr>
         else if 1 = c
         then (if c > 100 \<or> length pl > 64 * 1024
               then \<lparr>dr_state = d2, dr_events = received, dr_return = True,
                     dr_deferred = Some (t, m)\<rparr>
               else \<lparr>dr_state = fst (reassemble_message d2 t m),
                     dr_events = received @ snd (reassemble_message d2 t m),
                     dr_return = True, dr_deferred = None\<rparr>)
         else \<lparr>dr_state = d2, dr_events = received, dr_return = True,
               dr_deferred = None\<rparr>)"
proof (cases "accumulators d t")
  case None
  then show ?thesis
    by (simp add: accumulate_fragment_def Let_def case_prod_unfold)
next
  case (Some a)
  with assms have "is_newer_message m (message_id a)" by simp
  then show ?thesis
    using Some is_newer_message_asym [of m "message_id a"]
    by (simp add: accumulate_fragment_def Let_def case_prod_unfold)
qed

lemma reassemble_message_complete:
  assumes "accumulators d t = Some acc" and "message_id acc = m"
    and "\<forall>i<fragment_count acc. fragments acc i \<noteq> None"
    and "message_len acc =
           length (concat (map (\<lambda>i. the (fragments acc i)) [0..<fragment_count acc]))"
  shows "reassemble_message d t m =
     (reset_message_state d (Some t),
      [Message (concat (map (\<lambda>i. the (fragments acc i)) [0..<fragment_count acc])) t
         \<lparr>md_message_id = m, md_fragment_count = fragment_count acc,
          md_total_bytes = message_len acc\<rparr>,
       MessageComplete t m (fragment_count acc) (message_len acc)])"
proof -
  let ?msg = "concat (map (\<lambda>i. the (fragments acc i)) [0..<fragment_count acc])"
  have "copy_fragments (fragments acc) [0..<fragment_count acc]
          (allocUnsafe (message_len acc)) 0
        = Inr (take 0 (allocUnsafe (message_len acc)) @ ?msg
               @ drop (0 + length ?msg) (allocUnsafe (message_len acc)))"
    using assms(3,4) by (intro copy_fragments_present) (simp_all add: allocUnsafe_def)
  then have "copy_fragments (fragments acc) [0..<fragment_count acc]
          (allocUnsafe (message_len acc)) 0 = Inr ?msg"
    using assms(4) by (simp add: allocUnsafe_def)
  then show ?thesis
    using assms(1,2) by (simp add: reassemble_message_def Let_def)
qed


lemma reassemble_message_destroys:
  "accumulators d t = Some a \<Longrightarrow> message_id a = m \<Longrightarrow>
   accumulators (fst (reassemble_message d t m)) t = None"
  by (simp add: reassemble_message_def reset_message_state_def Let_def)

lemma accumulate_fragment_stale:
  "accumulators d t = Some a \<Longrightarrow> is_newer_message (message_id a) m \<Longrightarrow>
   accumulate_fragment d t m i c pl = silent d"
  by (simp add: accumulate_fragment_def silent_def)

lemma accumulate_fragment_mismatch:
  "accumulators d t = Some a \<Longrightarrow> \<not> is_newer_message (message_id a) m \<Longrightarrow>
   \<not> is_newer_message m (message_id a) \<Longrightarrow> m \<noteq> message_id a \<Longrightarrow>
   accumulate_fragment d t m i c pl =
     \<lparr>dr_state = d, dr_events = [Error (MessageIdMismatch (message_id a) m)],
      dr_return = False, dr_deferred = None\<rparr>"
  by (simp add: accumulate_fragment_def)

lemma accumulate_fragment_destroyed:
  assumes "(\<exists>a b. Error (FragmentCountExceeded a b)
               \<in> set (dr_events (accumulate_fragment d t m i c pl)))
           \<or> (\<exists>a b. Error (ReassemblyFailed a b)
               \<in> set (dr_events (accumulate_fragment d t m i c pl)))
           \<or> (\<exists>ev\<in>set (dr_events (accumulate_fragment d t m i c pl)). is_message ev)"
  shows "accumulators (dr_state (accumulate_fragment d t m i c pl)) t = None"
proof -
  consider
      (new) "case accumulators d t of None \<Rightarrow> True
             | Some a \<Rightarrow> is_newer_message m (message_id a)"
    | (stale) a where "accumulators d t = Some a" "is_newer_message (message_id a) m"
    | (mismatch) a where "accumulators d t = Some a" "\<not> is_newer_message (message_id a) m"
        "\<not> is_newer_message m (message_id a)" "m \<noteq> message_id a"
    | (duplicate) a where "accumulators d t = Some a" "message_id a = m" "fragments a i \<noteq> None"
    | (store) a where "accumulators d t = Some a" "message_id a = m" "fragments a i = None"
    by (cases "accumulators d t") auto
  then show ?thesis
  proof cases
    case new
    let ?acc = "\<lparr>message_id = m, fragment_count = c, fragments_received = 1,
                   fragments = [i \<mapsto> pl], message_len = length pl, valid = True\<rparr>"
    have "accumulators (fst (reassemble_message
            (d\<lparr>accumulators := (accumulators d)(t \<mapsto> ?acc)\<rparr>) t m)) t = None"
      by (rule reassemble_message_destroys [where a = ?acc]) simp_all
    then show ?thesis
      using assms unfolding accumulate_fragment_new [OF new]
      by (auto simp: Let_def reset_message_state_def split: if_splits option.splits)
  next
    case stale
    then show ?thesis
      using assms by (simp add: accumulate_fragment_stale silent_def)
  next
    case mismatch
    then show ?thesis
      using assms by (simp add: accumulate_fragment_mismatch)
  next
    case duplicate
    then show ?thesis
      using assms by (simp add: accumulate_fragment_duplicate)
  next
    case store
    let ?acc = "a\<lparr>fragments := (fragments a)(i \<mapsto> pl),
                   fragments_received := fragments_received a + 1,
                   message_len := message_len a + length pl\<rparr>"
    have "accumulators (fst (reassemble_message
            (d\<lparr>accumulators := (accumulators d)(t \<mapsto> ?acc)\<rparr>) t m)) t = None"
      using store(2) by (intro reassemble_message_destroys [where a = ?acc]) simp_all
    then show ?thesis
      using assms unfolding accumulate_fragment_store [OF store]
      by (auto simp: Let_def reset_message_state_def split: if_splits)
  qed
qed

lemma decode_packet_destroyed:
  assumes "(\<exists>a b. Error (FragmentCountExceeded a b) \<in> set (dr_events (decode_packet d p)))
           \<or> (\<exists>a b. Error (ReassemblyFailed a b) \<in> set (dr_events (decode_packet d p)))
           \<or> (\<exists>ev\<in>set (dr_events (decode_packet d p)). is_message ev)"
  shows "accumulators (dr_state (decode_packet d p)) (packet_type p) = None"
proof (cases "passes_filters d p")
  case True
  then show ?thesis
    using assms accumulate_fragment_destroyed by (simp add: decode_packet_accumulate)
next
  case False
  then have "dr_events (decode_packet d p) = []
     \<or> dr_events (decode_packet d p) = [Error PacketTooShort]
     \<or> (\<exists>v. dr_events (decode_packet d p) = [Error (UnsupportedVersion v)])
     \<or> (\<exists>i c n. dr_events (decode_packet d p) = [Error (InvalidFragment i c n)])"
    by (auto simp: passes_filters_def decode_packet_def packet_defs Let_def split: option.splits)
  with assms show ?thesis by auto
qed

text \<open>
  C10. In every state a decoder can reach from its construction, every accumulator in the
  per-type map has \<open>fragments_received\<close> equal to the number of entries of its map of
  fragments, \<open>message_len\<close> equal to the sum of the lengths of the stored payloads, and
  \<open>fragments_received\<close> at most \<open>fragment_count\<close>. A call of \<open>decode_packet\<close> that reports
  \<open>Fragment count exceeded\<close>, or that runs the reassembly itself (and so emits the
  message or \<open>Reassembly failed\<close>), leaves no accumulator for the type of its packet.
\<close>

theorem accumulator_counts_consistent:
  "(accumulators (run_ops (new_decoder sid ts) ops) t = Some acc \<longrightarrow>
      fragments_received acc = card (dom (fragments acc))
      \<and> message_len acc = (\<Sum>i\<in>dom (fragments acc). length (the (fragments acc i)))
      \<and> fragments_received acc \<le> fragment_count acc)
   \<and> ((\<exists>a b. Error (FragmentCountExceeded a b) \<in> set (dr_events (decode_packet d p)))
        \<or> (\<exists>a b. Error (ReassemblyFailed a b) \<in> set (dr_events (decode_packet d p)))
        \<or> (\<exists>ev\<in>set (dr_events (decode_packet d p)). is_message ev) \<longrightarrow>
      accumulators (dr_state (decode_packet d p)) (packet_type p) = None)"
proof (rule conjI)
  show "accumulators (run_ops (new_decoder sid ts) ops) t = Some acc \<longrightarrow>
      fragments_received acc = card (dom (fragments acc))
      \<and> message_len acc = (\<Sum>i\<in>dom (fragments acc). length (the (fragments acc i)))
      \<and> fragments_received acc \<le> fragment_count acc"
  proof (rule impI)
    assume a: "accumulators (run_ops (new_decoder sid ts) ops) t = Some acc"
    have "decoder_invariant (run_ops (new_decoder sid ts) ops)"
      by (rule run_ops_invariant [OF new_decoder_invariant])
    then have "accumulator_invariant acc"
      using a unfolding decoder_invariant_def by blast
    then show "fragments_received acc = card (dom (fragments acc))
        \<and> message_len acc = (\<Sum>i\<in>dom (fragments acc). length (the (fragments acc i)))
        \<and> fragments_received acc \<le> fragment_count acc"
      by (simp add: accumulator_invariant_def)
  qed
next
  show "(\<exists>a b. Error (FragmentCountExceeded a b) \<in> set (dr_events (decode_packet d p)))
        \<or> (\<exists>a b. Error (ReassemblyFailed a b) \<in> set (dr_events (decode_packet d p)))
        \<or> (\<exists>ev\<in>set (dr_events (decode_packet d p)). is_message ev) \<longrightarrow>
      accumulators (dr_state (decode_packet d p)) (packet_type p) = None"
    using decode_packet_destroyed [of d p] by blast
qed

theorem accumulator_counts_consistent_witness:
  "accumulators (run_ops (new_decoder 0 None) [Accept pkt_id0_frag0of2, Accept pkt_id0_frag0of2]) 5
     = Some \<lparr>message_id = 0, fragment_count = 2, fragments_received = 1,
             fragments = [0 \<mapsto> [0xAA]], message_len = 1, valid = True\<rparr>
   \<and> (1::nat) = card (dom [0 \<mapsto> [0xAA :: byte]])
   \<and> (1::nat) = (\<Sum>i\<in>dom [(0::nat) \<mapsto> [0xAA :: byte]]. length (the ([0 \<mapsto> [0xAA]] i)))
   \<and> (1::nat) \<le> 2
   \<and> dr_events (decode_packet (run_ops (new_decoder 0 None) [Accept pkt_id0_frag0of2])
                   pkt_id0_frag1of2) =
       [FragmentReceived 5 0 1 2 2,
        Message [0xAA, 0xAB] 5
          \<lparr>md_message_id = 0, md_fragment_count = 2, md_total_bytes = 2\<rparr>,
        MessageComplete 5 0 2 2]
   \<and> accumulators (dr_state (decode_packet
          (run_ops (new_decoder 0 None) [Accept pkt_id0_frag0of2]) pkt_id0_frag1of2)) 5 = None"
  using accumulator_counts_consistent
    [of 0 None "[Accept pkt_id0_frag0of2, Accept pkt_id0_frag0of2]" 5
        "\<lparr>message_id = 0, fragment_count = 2, fragments_received = 1,
          fragments = [0 \<mapsto> [0xAA]], message_len = 1, valid = True\<rparr>"
        "run_ops (new_decoder 0 None) [Accept pkt_id0_frag0of2]" pkt_id0_frag1of2]
  by (simp add: run_ops_def eval_defs packet_defs is_newer_message_mod pkt_id0_frag0of2_def
        pkt_id0_frag1of2_def upt_rec)

subsection \<open>The packets the encoder emits\<close>

lemma get_buffer_length: "length (fst (get_buffer pool sz)) = sz"
  by (induction pool) (simp_all add: allocUnsafe_def case_prod_unfold Let_def)

lemma twelve_bytes:
  assumes "length buf = 12 + n"
  obtains x0 x1 x2 x3 x4 x5 x6 x7 x8 x9 x10 x11 rest
  where "buf = x0 # x1 # x2 # x3 # x4 # x5 # x6 # x7 # x8 # x9 # x10 # x11 # rest"
    and "length rest = n"
proof -
  from assms have "length buf = Suc (Suc (Suc (Suc (Suc (Suc (Suc (Suc (Suc (Suc (Suc (Suc n)))))))))))"
    by simp
  then show ?thesis
    using that by (auto simp: length_Suc_conv)
qed

lemma fragment_slice:
  "take (min (i * MAX_PAYLOAD_SIZE + MAX_PAYLOAD_SIZE) (length mb) - i * MAX_PAYLOAD_SIZE)
        (drop (i * MAX_PAYLOAD_SIZE) mb) = fragment_payload mb i"
  by (simp add: fragment_payload_def min_def)

lemma fragment_payload_length:
  "length (fragment_payload mb i) =
     min (i * MAX_PAYLOAD_SIZE + MAX_PAYLOAD_SIZE) (length mb) - i * MAX_PAYLOAD_SIZE"
  by (auto simp: fragment_payload_def min_def)

lemma write_packet_bytes:
  assumes "length buf = 12 + length (fragment_payload mb i)"
    and "mid \<le> 0xFFFF" and "i \<le> 0xFFFF" and "fc \<le> 0xFFFF"
    and "0 \<le> mt" and "mt \<le> 63"
  shows "write_packet sid mb mt mid fc i buf = Some (jtp_header sid mt mid i fc @ fragment_payload mb i)"
proof -
  from assms(1) obtain x0 x1 x2 x3 x4 x5 x6 x7 x8 x9 x10 x11 rest
    where buf: "buf = x0 # x1 # x2 # x3 # x4 # x5 # x6 # x7 # x8 # x9 # x10 # x11 # rest"
      and rest: "length rest = length (fragment_payload mb i)"
    by (rule twelve_bytes)
  have vt: "nat (push_bit 6 (int VERSION) OR (mt AND 0x3F)) \<le> 0xFF"
  proof -
    have "mt AND 0x3F \<le> 0x3F" using AND_upper2 [of 63 mt] by simp
    then show ?thesis by (simp add: VERSION_def nat_le_iff)
  qed
  show ?thesis
    using vt assms(2-4) rest
    by (auto simp: write_packet_def writeUInt8_def writeUInt16LE_def writeUInt32LE_def
          buf jtp_header_def buffer_copy_def Let_def MAGIC_BYTE_def fragment_slice)
qed

lemma encode_loop_events:
  assumes "mid \<le> 0xFFFF" and "fc \<le> 0xFFFF" and "0 \<le> mt" and "mt \<le> 63"
    and "\<forall>i\<in>set idxs. i < fc"
  shows "snd (encode_loop e mb mt mid fc idxs) =
           map (\<lambda>i. Packet (jtp_header (enc_source_id e) mt mid i fc @ fragment_payload mb i)
                         (emitted_info mt mid fc mb i)) idxs
           @ [MessageEncoded \<lparr>cm_message_id = mid, cm_message_type = mt,
                               cm_fragment_count = fc, cm_total_bytes = length mb\<rparr>]"
  using assms(5)
proof (induction idxs arbitrary: e)
  case Nil
  then show ?case by simp
next
  case (Cons i idxs)
  let ?n = "min (i * MAX_PAYLOAD_SIZE + MAX_PAYLOAD_SIZE) (length mb) - i * MAX_PAYLOAD_SIZE"
  let ?g = "get_buffer (buffer_pool e) (12 + ?n)"
  have len: "length (fst ?g) = 12 + length (fragment_payload mb i)"
    by (simp add: get_buffer_length fragment_payload_length)
  have i: "i \<le> 0xFFFF" using Cons.prems assms(2) by auto
  have wp: "write_packet (enc_source_id e) mb mt mid fc i (fst ?g)
              = Some (jtp_header (enc_source_id e) mt mid i fc @ fragment_payload mb i)"
    using len assms(1) i assms(2,3,4) by (rule write_packet_bytes)
  have ih: "snd (encode_loop (e\<lparr>buffer_pool := snd ?g\<rparr>) mb mt mid fc idxs) =
           map (\<lambda>i. Packet (jtp_header (enc_source_id e) mt mid i fc @ fragment_payload mb i)
                         (emitted_info mt mid fc mb i)) idxs
           @ [MessageEncoded \<lparr>cm_message_id = mid, cm_message_type = mt,
                               cm_fragment_count = fc, cm_total_bytes = length mb\<rparr>]"
    using Cons.prems Cons.IH [of "e\<lparr>buffer_pool := snd ?g\<rparr>"] by simp
  show ?case
    using wp ih
    by (simp add: Let_def case_prod_unfold emitted_info_def fragment_payload_length)
qed

lemma packets_of_map:
  "packets_of (map (\<lambda>i. Packet (f i) (g i)) idxs @ [MessageEncoded m]) = map f idxs"
  by (induction idxs) simp_all

lemma encode_message_async_packets:
  assumes "mid \<le> 0xFFFF" and "fc \<le> 0xFFFF" and "0 \<le> mt" and "mt \<le> 63"
  shows "packets_of (snd (encode_message_async e mb mt mid fc)) =
           map (\<lambda>i. jtp_header (enc_source_id e) mt mid i fc @ fragment_payload mb i) [0..<fc]"
  using assms by (simp add: encode_message_async_def encode_loop_events packets_of_map)


lemma and_63_int: "0 \<le> mt \<Longrightarrow> mt \<le> 63 \<Longrightarrow> mt AND 63 = (mt::int)"
proof -
  assume a: "0 \<le> mt" "mt \<le> 63"
  have "mt AND mask 6 = mt mod 2 ^ 6"
    by (simp add: take_bit_eq_mod flip: take_bit_eq_mask)
  then show ?thesis using a by (simp add: mask_eq_exp_minus_1)
qed

lemma and_63_nat: "n \<le> 63 \<Longrightarrow> n AND 63 = (n::nat)"
proof -
  assume a: "n \<le> 63"
  have "n AND mask 6 = n mod 2 ^ 6"
    by (simp add: take_bit_eq_mod flip: take_bit_eq_mask)
  then show ?thesis using a by (simp add: mask_eq_exp_minus_1)
qed

lemma and_3_nat: "(n::nat) AND 3 = n mod 4"
proof -
  have "n AND mask 2 = n mod 2 ^ 2"
    by (simp add: take_bit_eq_mod flip: take_bit_eq_mask)
  then show ?thesis by (simp add: mask_eq_exp_minus_1)
qed

lemma unat_byte: "unat (of_nat n :: byte) = n mod 256"
  by (simp add: unat_of_nat)

lemma u16_bytes: "m \<le> 0xFFFF \<Longrightarrow> m mod 256 + 256 * (m div 256 mod 256) = (m::nat)"
  using mod_mult2_eq [of m 256 256] by simp

lemma u32_bytes:
  "(of_nat (unat w mod 256 + 256 * (unat w div 256 mod 256)
      + 65536 * (unat w div 65536 mod 256) + 16777216 * (unat w div 16777216 mod 256)) :: 32 word) = w"
proof -
  let ?x = "unat w"
  have a: "?x mod 65536 = 256 * (?x div 256 mod 256) + ?x mod 256"
    using mod_mult2_eq [of ?x 256 256] by simp
  have b: "?x mod 16777216 = 65536 * (?x div 65536 mod 256) + ?x mod 65536"
    using mod_mult2_eq [of ?x 65536 256] by simp
  have c: "?x mod 4294967296 = 16777216 * (?x div 16777216 mod 256) + ?x mod 16777216"
    using mod_mult2_eq [of ?x 16777216 256] by simp
  have "?x < 4294967296" using unsigned_less [of w] by simp
  then have "?x mod 256 + 256 * (?x div 256 mod 256)
      + 65536 * (?x div 65536 mod 256) + 16777216 * (?x div 16777216 mod 256) = ?x"
    using a b c by simp
  then have "(of_nat (?x mod 256 + 256 * (?x div 256 mod 256)
      + 65536 * (?x div 65536 mod 256) + 16777216 * (?x div 16777216 mod 256)) :: 32 word)
      = of_nat ?x"
    by (simp only:)
  then show ?thesis by simp
qed

lemma jtp_header_read:
  assumes "mid \<le> 0xFFFF" and "i \<le> 0xFFFF" and "fc \<le> 0xFFFF" and "0 \<le> mt" and "mt \<le> 63"
  shows "length (jtp_header sid mt mid i fc @ pl) = 12 + length pl"
    and "readUInt8 (jtp_header sid mt mid i fc @ pl) 0 = MAGIC_BYTE"
    and "packet_version (jtp_header sid mt mid i fc @ pl) = VERSION"
    and "packet_type (jtp_header sid mt mid i fc @ pl) = nat mt"
    and "packet_message_id (jtp_header sid mt mid i fc @ pl) = mid"
    and "packet_fragment_index (jtp_header sid mt mid i fc @ pl) = i"
    and "packet_fragment_count (jtp_header sid mt mid i fc @ pl) = fc"
    and "packet_source_id (jtp_header sid mt mid i fc @ pl) = sid"
    and "packet_payload (jtp_header sid mt mid i fc @ pl) = pl"
proof -
  from assms(4) obtain m where m0: "mt = int m"
    by (rule nonneg_int_cases)
  with assms(5) have m: "mt = int m" "m \<le> 63" by simp_all
  have b1: "readUInt8 (jtp_header sid mt mid i fc @ pl) 1 = m"
    using m by (simp add: jtp_header_def readUInt8_def VERSION_def and_63_int unat_byte)
  show "length (jtp_header sid mt mid i fc @ pl) = 12 + length pl"
    by (simp add: jtp_header_def)
  show "readUInt8 (jtp_header sid mt mid i fc @ pl) 0 = MAGIC_BYTE"
    by (simp add: jtp_header_def readUInt8_def MAGIC_BYTE_def)
  show "packet_version (jtp_header sid mt mid i fc @ pl) = VERSION"
    unfolding packet_version_def b1
    using m(2) by (simp add: VERSION_def and_3_nat drop_bit_eq_div)
  show "packet_type (jtp_header sid mt mid i fc @ pl) = nat mt"
    unfolding packet_type_def b1
    using m by (simp add: and_63_nat)
  show "packet_message_id (jtp_header sid mt mid i fc @ pl) = mid"
    using u16_bytes [OF assms(1)]
    by (simp add: jtp_header_def packet_message_id_def readUInt16LE_def unat_byte)
  show "packet_fragment_index (jtp_header sid mt mid i fc @ pl) = i"
    using u16_bytes [OF assms(2)]
    by (simp add: jtp_header_def packet_fragment_index_def readUInt16LE_def unat_byte)
  show "packet_fragment_count (jtp_header sid mt mid i fc @ pl) = fc"
    using u16_bytes [OF assms(3)]
    by (simp add: jtp_header_def packet_fragment_count_def readUInt16LE_def unat_byte)
  show "packet_source_id (jtp_header sid mt mid i fc @ pl) = sid"
    using u32_bytes [of sid]
    by (simp add: jtp_header_def packet_source_id_def readUInt32LE_def unat_byte)
  show "packet_payload (jtp_header sid mt mid i fc @ pl) = pl"
    by (simp add: jtp_header_def packet_payload_def)
qed


lemma encode_message_Some:
  assumes "encode_message e (Buffer mb) mt = (e1, Some mid, work)"
  shows "0 \<le> mt" and "mt \<le> 63" and "mid = enc_message_id e"
    and "max 1 (ceil_div (length mb) MAX_PAYLOAD_SIZE) \<le> 0xFFFF"
    and "work = EncodeAsync mb mt mid (max 1 (ceil_div (length mb) MAX_PAYLOAD_SIZE))"
  using assms by (auto simp: encode_message_def Let_def split: if_splits)

lemma encode_message_success:
  assumes "0 \<le> mt" and "mt \<le> 63"
    and "max 1 (ceil_div (length mb) MAX_PAYLOAD_SIZE) \<le> 0xFFFF"
  shows "encode_message e (Buffer mb) mt =
           (increment_message_id e, Some (enc_message_id e),
            EncodeAsync mb mt (enc_message_id e) (max 1 (ceil_div (length mb) MAX_PAYLOAD_SIZE)))"
  using assms by (auto simp: encode_message_def Let_def)

lemma fragment_count_ceiling:
  "int (max 1 (ceil_div (length mb) MAX_PAYLOAD_SIZE))
     = max 1 \<lceil>real (length mb) / real MAX_PAYLOAD_SIZE\<rceil>"
proof -
  have c: "int (ceil_div (length mb) MAX_PAYLOAD_SIZE)
             = \<lceil>real (length mb) / real MAX_PAYLOAD_SIZE\<rceil>"
    by (rule ceil_div_ceiling) (simp add: MAX_PAYLOAD_SIZE_def)
  show ?thesis by (simp only: of_nat_max of_nat_1 c)
qed

lemma replicate_numeral: "replicate (numeral k) x = x # replicate (pred_numeral k) x"
  by (simp add: numeral_eq_Suc)

lemmas enc_eval_defs = encode_message_def encode_message_async_def write_packet_def
  writeUInt8_def writeUInt16LE_def writeUInt32LE_def buffer_copy_def allocUnsafe_def
  increment_message_id_def new_encoder_def ceil_div_def MAGIC_BYTE_def VERSION_def
  MAX_PAYLOAD_SIZE_def Let_def

lemma fragment_count_arith:
  fixes n :: nat
  shows "i + 1 < max 1 (ceil_div n 1200) \<Longrightarrow> (i + 1) * 1200 \<le> n"
    and "n \<le> max 1 (ceil_div n 1200) * 1200"
    and "(max 1 (ceil_div n 1200) - 1) * 1200 \<le> n"
proof -
  show "i + 1 < max 1 (ceil_div n 1200) \<Longrightarrow> (i + 1) * 1200 \<le> n"
    by (simp add: ceil_div_def max_def split: if_splits)
  show "n \<le> max 1 (ceil_div n 1200) * 1200"
    by (simp add: ceil_div_def max_def) arith
  show "(max 1 (ceil_div n 1200) - 1) * 1200 \<le> n"
    by (simp add: ceil_div_def max_def) arith
qed

text \<open>
  C8. Every packet that a successful \<open>encode_message\<close> emits has the magic byte 0x4A at
  offset 0, \<open>(VERSION << 6) | (message_type & 0x3F)\<close> at offset 1, and the message id, the
  fragment index, the fragment count (16 bits each) and the source id (32 bits) in
  little-endian order at the offsets 2, 4, 6 and 8, followed by the payload. The reads of
  \<open>decode_packet\<close> at these offsets give back the version, the message type, the message
  id, the fragment index, the fragment count and the source id, and a fresh decoder of
  that source reports them in its \<open>message:start\<close> and \<open>fragment:received\<close> events.
\<close>

theorem emitted_header_layout:
  assumes "encode_message e (Buffer mb) mt = (e1, Some mid, work)"
    and "enc_message_id e \<le> 0xFFFF"
    and "Packet pkt info \<in> set (snd (run_enc_deferred e2 work))"
  shows "length pkt = 12 + pi_fragment_size info
       \<and> pkt ! 0 = 0x4A
       \<and> pkt ! 1 = (push_bit 6 (of_nat VERSION) OR (word_of_int mt AND 0x3F))
       \<and> pkt ! 2 = of_nat (mid mod 256) \<and> pkt ! 3 = of_nat (mid div 256)
       \<and> pkt ! 4 = of_nat (pi_fragment_index info mod 256)
       \<and> pkt ! 5 = of_nat (pi_fragment_index info div 256)
       \<and> pkt ! 6 = of_nat (pi_fragment_count info mod 256)
       \<and> pkt ! 7 = of_nat (pi_fragment_count info div 256)
       \<and> pkt ! 8 = of_nat (unat (enc_source_id e2) mod 256)
       \<and> pkt ! 9 = of_nat (unat (enc_source_id e2) div 256 mod 256)
       \<and> pkt ! 10 = of_nat (unat (enc_source_id e2) div 65536 mod 256)
       \<and> pkt ! 11 = of_nat (unat (enc_source_id e2) div 16777216)
       \<and> readUInt8 pkt 0 = MAGIC_BYTE
       \<and> packet_version pkt = VERSION
       \<and> int (packet_type pkt) = mt
       \<and> packet_message_id pkt = mid \<and> mid = enc_message_id e
       \<and> packet_fragment_index pkt = pi_fragment_index info
       \<and> packet_fragment_count pkt = pi_fragment_count info
       \<and> packet_source_id pkt = enc_source_id e2
       \<and> (\<exists>rest. dr_events (decode_packet (new_decoder (enc_source_id e2) None) pkt) =
              [MessageStart (nat mt) mid (pi_fragment_count info),
               FragmentReceived (nat mt) mid (pi_fragment_index info)
                 (pi_fragment_count info) 1] @ rest)"
proof -
  let ?fc = "max 1 (ceil_div (length mb) MAX_PAYLOAD_SIZE)"
  let ?sid = "enc_source_id e2"
  note es = encode_message_Some [OF assms(1)]
  have mid: "mid \<le> 0xFFFF" using es(3) assms(2) by simp
  have "snd (run_enc_deferred e2 work) =
           map (\<lambda>i. Packet (jtp_header ?sid mt mid i ?fc @ fragment_payload mb i)
                         (emitted_info mt mid ?fc mb i)) [0..<?fc]
           @ [MessageEncoded \<lparr>cm_message_id = mid, cm_message_type = mt,
                               cm_fragment_count = ?fc, cm_total_bytes = length mb\<rparr>]"
    using mid es(1,2,4) by (simp add: es(5) encode_message_async_def encode_loop_events)
  with assms(3) obtain i where i: "i < ?fc"
      and pkt: "pkt = jtp_header ?sid mt mid i ?fc @ fragment_payload mb i"
      and info: "info = emitted_info mt mid ?fc mb i"
    by auto
  have i16: "i \<le> 0xFFFF" using i es(4) by simp
  note rd = jtp_header_read [OF mid i16 es(4) es(1) es(2), of ?sid "fragment_payload mb i"]
  from es(1) obtain m where m0: "mt = int m" by (rule nonneg_int_cases)
  with es(2) have m: "m \<le> 63" by simp
  have b1: "pkt ! 1 = (push_bit 6 (of_nat VERSION) OR (word_of_int mt AND 0x3F))"
  proof -
    have "(of_nat m :: byte) AND 0x3F = of_nat (m AND 0x3F)"
      by (simp add: of_nat_and_eq)
    then show ?thesis
      using m by (simp add: pkt jtp_header_def VERSION_def m0 and_63_nat and_63_int)
  qed
  have pl: "length (fragment_payload mb i) \<le> MAX_PAYLOAD_SIZE"
    by (simp add: fragment_payload_def)
  have pass: "passes_filters (new_decoder ?sid None) pkt"
    using rd i pl by (simp add: passes_filters_def pkt new_decoder_def)
  note rd' = rd [folded pkt]
  have none: "case accumulators (new_decoder ?sid None) (nat mt) of
                None \<Rightarrow> True | Some a \<Rightarrow> is_newer_message mid (message_id a)"
    by (simp add: new_decoder_def)
  have acc_none: "accumulators (new_decoder ?sid None) (nat mt) = None"
    by (simp add: new_decoder_def)
  have dp: "decode_packet (new_decoder ?sid None) pkt =
          accumulate_fragment (new_decoder ?sid None) (nat mt) mid i ?fc (fragment_payload mb i)"
    using decode_packet_accumulate [OF pass] by (simp only: rd')
  have ev: "\<exists>rest. dr_events (decode_packet (new_decoder ?sid None) pkt) =
              [MessageStart (nat mt) mid ?fc, FragmentReceived (nat mt) mid i ?fc 1] @ rest"
    unfolding dp accumulate_fragment_new [OF none]
    by (auto simp: Let_def acc_none)
  have bytes: "pkt ! 0 = 0x4A \<and> pkt ! 2 = of_nat (mid mod 256) \<and> pkt ! 3 = of_nat (mid div 256)
       \<and> pkt ! 4 = of_nat (i mod 256) \<and> pkt ! 5 = of_nat (i div 256)
       \<and> pkt ! 6 = of_nat (?fc mod 256) \<and> pkt ! 7 = of_nat (?fc div 256)
       \<and> pkt ! 8 = of_nat (unat ?sid mod 256)
       \<and> pkt ! 9 = of_nat (unat ?sid div 256 mod 256)
       \<and> pkt ! 10 = of_nat (unat ?sid div 65536 mod 256)
       \<and> pkt ! 11 = of_nat (unat ?sid div 16777216)"
    by (simp add: pkt jtp_header_def MAGIC_BYTE_def)
  show ?thesis
    using rd' b1 ev bytes es(3)
    by (simp add: info emitted_info_def es(1))
qed

theorem emitted_header_layout_witness:
  "encode_message (new_encoder 0x12345678) (Buffer [72, 101, 108, 108, 111]) 5 =
     ((new_encoder 0x12345678)\<lparr>enc_message_id := 1\<rparr>, Some 0,
      EncodeAsync [72, 101, 108, 108, 111] 5 0 1)
   \<and> Packet [0x4A, 5, 0, 0, 0, 0, 1, 0, 0x78, 0x56, 0x34, 0x12, 72, 101, 108, 108, 111]
        \<lparr>pi_message_id = 0, pi_message_type = 5, pi_fragment_index = 0,
         pi_fragment_count = 1, pi_fragment_size = 5\<rparr>
       \<in> set (snd (run_enc_deferred ((new_encoder 0x12345678)\<lparr>enc_message_id := 1\<rparr>)
                       (EncodeAsync [72, 101, 108, 108, 111] 5 0 1)))
   \<and> packet_source_id
         [0x4A, 5, 0, 0, 0, 0, 1, 0, 0x78, 0x56, 0x34, 0x12, 72, 101, 108, 108, 111]
       = 0x12345678
   \<and> packet_type
         [0x4A, 5, 0, 0, 0, 0, 1, 0, 0x78, 0x56, 0x34, 0x12, 72, 101, 108, 108, 111] = 5"
  using emitted_header_layout
    [of "new_encoder 0x12345678" "[72, 101, 108, 108, 111]" 5
        "(new_encoder 0x12345678)\<lparr>enc_message_id := 1\<rparr>" 0
        "EncodeAsync [72, 101, 108, 108, 111] 5 0 1"
        "[0x4A, 5, 0, 0, 0, 0, 1, 0, 0x78, 0x56, 0x34, 0x12, 72, 101, 108, 108, 111]"
        "\<lparr>pi_message_id = 0, pi_message_type = 5, pi_fragment_index = 0,
         pi_fragment_count = 1, pi_fragment_size = 5\<rparr>"
        "(new_encoder 0x12345678)\<lparr>enc_message_id := 1\<rparr>"]
  by (simp add: enc_eval_defs upt_rec replicate_numeral packet_defs readUInt8_def
        readUInt16LE_def readUInt32LE_def)

text \<open>
  C4. For a message type in 0..63 and a buffer that needs at most 65535 fragments,
  \<open>encode_message\<close> emits exactly \<open>max(1, ceil(length / 1200))\<close> packets; packet \<open>i\<close>
  carries the index \<open>i\<close>, that count, and the bytes \<open>[1200 i, min(1200 (i + 1), length))\<close>
  of the buffer; every packet but the last carries 1200 bytes, the last one the rest; the
  empty buffer gives one packet with an empty payload.
\<close>

theorem fragmentation:
  assumes "0 \<le> mt" and "mt \<le> 63" and "enc_message_id e \<le> 0xFFFF"
    and "max 1 \<lceil>real (length mb) / 1200\<rceil> \<le> 65535"
  shows "let fc = nat (max 1 \<lceil>real (length mb) / 1200\<rceil>);
             pkts = packets_of (snd (run_enc_deferred e2
                       (snd (snd (encode_message e (Buffer mb) mt)))))
         in length pkts = fc
            \<and> (\<forall>i<fc. packet_payload (pkts ! i) =
                          take (min ((i + 1) * 1200) (length mb) - i * 1200)
                               (drop (i * 1200) mb)
                        \<and> packet_fragment_index (pkts ! i) = i
                        \<and> packet_fragment_count (pkts ! i) = fc)
            \<and> (\<forall>i. i + 1 < fc \<longrightarrow> length (packet_payload (pkts ! i)) = 1200)
            \<and> length (packet_payload (pkts ! (fc - 1))) = length mb - (fc - 1) * 1200
            \<and> (mb = [] \<longrightarrow> fc = 1 \<and> packet_payload (pkts ! 0) = [])"
proof -
  let ?fc = "max 1 (ceil_div (length mb) MAX_PAYLOAD_SIZE)"
  let ?pkts = "packets_of (snd (run_enc_deferred e2
                       (snd (snd (encode_message e (Buffer mb) mt)))))"
  have fc_int: "int ?fc = max 1 \<lceil>real (length mb) / 1200\<rceil>"
    using fragment_count_ceiling [of mb] by (simp add: MAX_PAYLOAD_SIZE_def)
  then have fc_nat: "nat (max 1 \<lceil>real (length mb) / 1200\<rceil>) = ?fc"
    by (metis nat_int)
  have fc16: "?fc \<le> 0xFFFF"
    using assms(4) fc_int by linarith
  have pk: "?pkts = map (\<lambda>i. jtp_header (enc_source_id e2) mt (enc_message_id e) i ?fc
                            @ fragment_payload mb i) [0..<?fc]"
    using assms(1-3) fc16
    by (simp add: encode_message_success encode_message_async_packets)
  have rd: "packet_payload (?pkts ! i) = fragment_payload mb i
          \<and> packet_fragment_index (?pkts ! i) = i
          \<and> packet_fragment_count (?pkts ! i) = ?fc" if "i < ?fc" for i
  proof -
    have "i \<le> 0xFFFF" using that fc16 by simp
    then show ?thesis
      using that jtp_header_read(6,7,9) [OF assms(3) _ fc16 assms(1,2),
               of i "enc_source_id e2" "fragment_payload mb i"]
      by (simp add: pk)
  qed
  have slice: "fragment_payload mb i =
           take (min ((i + 1) * 1200) (length mb) - i * 1200) (drop (i * 1200) mb)" for i
    using fragment_slice [of i mb] by (simp add: MAX_PAYLOAD_SIZE_def ac_simps)
  have fc1200: "?fc = max 1 (ceil_div (length mb) 1200)"
    by (simp add: MAX_PAYLOAD_SIZE_def)
  have full: "length (fragment_payload mb i) = 1200" if "i + 1 < ?fc" for i
  proof -
    have "i + 1 < max 1 (ceil_div (length mb) 1200)"
      using that by (simp only: fc1200)
    then have "(i + 1) * 1200 \<le> length mb"
      by (rule fragment_count_arith(1))
    then show ?thesis
      by (simp add: fragment_payload_def MAX_PAYLOAD_SIZE_def)
  qed
  have last: "length (fragment_payload mb (?fc - 1)) = length mb - (?fc - 1) * 1200"
    using fragment_count_arith(2,3) [of "length mb"]
    by (simp add: fragment_payload_def fc1200 MAX_PAYLOAD_SIZE_def)
  have pos: "?fc - 1 < ?fc" "0 < ?fc" by simp_all
  have len: "length ?pkts = ?fc" by (simp add: pk)
  have empty: "mb = [] \<longrightarrow> ?fc = 1 \<and> packet_payload (?pkts ! 0) = []"
    using rd [OF pos(2)] by (auto simp: ceil_div_def MAX_PAYLOAD_SIZE_def fragment_payload_def)
  have all: "\<forall>i<?fc. packet_payload (?pkts ! i) =
                          take (min ((i + 1) * 1200) (length mb) - i * 1200)
                               (drop (i * 1200) mb)
                        \<and> packet_fragment_index (?pkts ! i) = i
                        \<and> packet_fragment_count (?pkts ! i) = ?fc"
    using rd slice by simp
  have fulls: "\<forall>i. i + 1 < ?fc \<longrightarrow> length (packet_payload (?pkts ! i)) = 1200"
    using rd full by simp
  have lasts: "length (packet_payload (?pkts ! (?fc - 1))) = length mb - (?fc - 1) * 1200"
    using rd [OF pos(1)] last by simp
  show ?thesis
    unfolding Let_def fc_nat
    using len all fulls lasts empty by blast
qed

theorem fragmentation_witness:
  "max 1 \<lceil>real (length (replicate 2500 (0::byte))) / 1200\<rceil> \<le> 65535
   \<and> length (packets_of (snd (run_enc_deferred (new_encoder 7)
         (snd (snd (encode_message (new_encoder 7) (Buffer (replicate 2500 0)) 10)))))) = 3
   \<and> length (packet_payload (packets_of (snd (run_enc_deferred (new_encoder 7)
         (snd (snd (encode_message (new_encoder 7) (Buffer (replicate 2500 0)) 10))))) ! 0))
       = 1200
   \<and> length (packet_payload (packets_of (snd (run_enc_deferred (new_encoder 7)
         (snd (snd (encode_message (new_encoder 7) (Buffer (replicate 2500 0)) 10))))) ! 2))
       = 100"
  using fragmentation [of 10 "new_encoder 7" "replicate 2500 0" "new_encoder 7"]
  by (simp add: new_encoder_def Let_def)

subsection \<open>Round trip\<close>

lemma concat_chunks:
  "concat (map (\<lambda>i. take k (drop (i * k) xs)) [0..<n]) = take (n * k) xs"
proof (induction n)
  case 0
  show ?case by simp
next
  case (Suc n)
  have "Suc n * k = n * k + k" by simp
  then have "take (Suc n * k) xs = take (n * k) xs @ take k (drop (n * k) xs)"
    by (simp only: take_add)
  with Suc show ?case by simp
qed

lemma concat_fragment_payloads:
  "length mb \<le> fc * MAX_PAYLOAD_SIZE \<Longrightarrow> concat (map (fragment_payload mb) [0..<fc]) = mb"
  using concat_chunks [of MAX_PAYLOAD_SIZE mb fc]
  by (simp add: fragment_payload_def [abs_def])

lemma partial_accumulator_store:
  assumes "finite I" and "i \<notin> I"
  shows "(partial_accumulator mid fc frag I)
           \<lparr>fragments := (fragments (partial_accumulator mid fc frag I))(i \<mapsto> frag i),
            fragments_received := fragments_received (partial_accumulator mid fc frag I) + 1,
            message_len := message_len (partial_accumulator mid fc frag I) + length (frag i)\<rparr>
         = partial_accumulator mid fc frag (insert i I)"
  using assms by (auto simp: partial_accumulator_def)

lemma partial_accumulator_first:
  "\<lparr>message_id = mid, fragment_count = fc, fragments_received = 1,
     fragments = [i \<mapsto> frag i], message_len = length (frag i), valid = True\<rparr>
   = partial_accumulator mid fc frag {i}"
  by (auto simp: partial_accumulator_def)

lemma partial_accumulator_full:
  "reassemble_message (d\<lparr>accumulators := (accumulators d)(t \<mapsto> partial_accumulator mid fc frag {0..<fc})\<rparr>) t mid
   = (d\<lparr>accumulators := (accumulators d)(t := None)\<rparr>,
      [Message (concat (map frag [0..<fc])) t
         \<lparr>md_message_id = mid, md_fragment_count = fc,
          md_total_bytes = length (concat (map frag [0..<fc]))\<rparr>,
       MessageComplete t mid fc (length (concat (map frag [0..<fc])))])"
proof -
  let ?acc = "partial_accumulator mid fc frag {0..<fc}"
  let ?d = "d\<lparr>accumulators := (accumulators d)(t \<mapsto> ?acc)\<rparr>"
  have m: "map (\<lambda>i. the (fragments ?acc i)) [0..<fragment_count ?acc] = map frag [0..<fc]"
    by (simp add: partial_accumulator_def)
  have len: "message_len ?acc = length (concat (map frag [0..<fc]))"
    by (simp add: partial_accumulator_def length_concat comp_def
          interv_sum_list_conv_sum_set_nat)
  have "reassemble_message ?d t mid =
     (reset_message_state ?d (Some t),
      [Message (concat (map (\<lambda>i. the (fragments ?acc i)) [0..<fragment_count ?acc])) t
         \<lparr>md_message_id = mid, md_fragment_count = fragment_count ?acc,
          md_total_bytes = message_len ?acc\<rparr>,
       MessageComplete t mid (fragment_count ?acc) (message_len ?acc)])"
    by (rule reassemble_message_complete) (simp_all add: m len, simp_all add: partial_accumulator_def)
  then show ?thesis
    by (simp add: m len, simp add: partial_accumulator_def reset_message_state_def)
qed


lemma deliver_step:
  assumes st: "if I = {} then accumulators d t = None
               else accumulators d t = Some (partial_accumulator mid fc frag I)"
    and fin: "finite I" and new: "i \<notin> I" and sub: "insert i I \<subseteq> {0..<fc}"
    and small: "fc \<le> 100" "length (concat (map frag [0..<fc])) \<le> 64 * 1024"
  shows "dr_deferred (accumulate_fragment d t mid i fc (frag i)) = None
       \<and> (if insert i I = {0..<fc}
            then accumulators (dr_state (accumulate_fragment d t mid i fc (frag i))) t = None
                 \<and> filter is_message (dr_events (accumulate_fragment d t mid i fc (frag i)))
                     = [Message (concat (map frag [0..<fc])) t
                          \<lparr>md_message_id = mid, md_fragment_count = fc,
                           md_total_bytes = length (concat (map frag [0..<fc]))\<rparr>]
            else accumulators (dr_state (accumulate_fragment d t mid i fc (frag i))) t
                   = Some (partial_accumulator mid fc frag (insert i I))
                 \<and> filter is_message (dr_events (accumulate_fragment d t mid i fc (frag i)))
                     = [])"
proof -
  have card_le: "card (insert i I) \<le> fc"
    using sub card_mono [of "{0..<fc}" "insert i I"] by simp
  have card_ins: "card (insert i I) = card I + 1"
    using fin new by simp
  have card_eq: "card I + 1 = fc \<longleftrightarrow> insert i I = {0..<fc}"
  proof
    assume "card I + 1 = fc"
    then have "card (insert i I) = card {0..<fc}" using card_ins by simp
    with sub show "insert i I = {0..<fc}"
      by (intro card_subset_eq) simp_all
  next
    assume "insert i I = {0..<fc}"
    then have "card (insert i I) = fc" by simp
    then show "card I + 1 = fc" using card_ins by simp
  qed
  show ?thesis
  proof (cases "I = {}")
    case True
    with st have none: "case accumulators d t of None \<Rightarrow> True
                        | Some a \<Rightarrow> is_newer_message mid (message_id a)"
      by simp
    from True st have acc: "accumulators d t = None" by simp
    have one: "1 = fc \<longleftrightarrow> {i} = {0..<fc}"
      using card_eq True by simp
    have pos: "\<not> 1 > fc" using card_le True by simp
    note af0 = accumulate_fragment_new [OF none, of i fc "frag i",
                 unfolded partial_accumulator_first]
    show ?thesis
    proof (cases "{i} = {0..<fc}")
      case full: True
      then have fc1: "fc = 1" using one by simp
      have re: "reassemble_message
                  (d\<lparr>accumulators := (accumulators d)(t \<mapsto> partial_accumulator mid fc frag {0..<fc})\<rparr>)
                  t mid
                = (d\<lparr>accumulators := (accumulators d)(t := None)\<rparr>,
                   [Message (concat (map frag [0..<fc])) t
                      \<lparr>md_message_id = mid, md_fragment_count = fc,
                       md_total_bytes = length (concat (map frag [0..<fc]))\<rparr>,
                    MessageComplete t mid fc (length (concat (map frag [0..<fc])))])"
        by (rule partial_accumulator_full)
      have len: "\<not> length (frag i) > 64 * 1024"
        using small(2) full fc1 by auto
      show ?thesis
        unfolding af0
        using True full [symmetric] re len small(1) acc
        by (simp add: Let_def fc1)
    next
      case False
      then have "1 \<noteq> fc" using one by simp
      then show ?thesis
        unfolding af0
        using True False pos acc
        by (simp add: Let_def)
    qed
  next
    case False
    let ?acc = "partial_accumulator mid fc frag I"
    from False st have acc: "accumulators d t = Some ?acc" by simp
    have id: "message_id ?acc = mid" and nf: "fragments ?acc i = None"
      and rc: "fragments_received ?acc = card I" and cnt: "fragment_count ?acc = fc"
      using new by (simp_all add: partial_accumulator_def)
    note af = accumulate_fragment_store [OF acc id nf, of fc "frag i",
                unfolded partial_accumulator_store [OF fin new]]
    have le: "\<not> card I + 1 > fc" using card_le card_ins by simp
    show ?thesis
    proof (cases "insert i I = {0..<fc}")
      case full: True
      then have eq: "card I + 1 = fc" using card_eq by simp
      have re: "reassemble_message
                  (d\<lparr>accumulators := (accumulators d)(t \<mapsto> partial_accumulator mid fc frag {0..<fc})\<rparr>)
                  t mid
                = (d\<lparr>accumulators := (accumulators d)(t := None)\<rparr>,
                   [Message (concat (map frag [0..<fc])) t
                      \<lparr>md_message_id = mid, md_fragment_count = fc,
                       md_total_bytes = length (concat (map frag [0..<fc]))\<rparr>,
                    MessageComplete t mid fc (length (concat (map frag [0..<fc])))])"
        by (rule partial_accumulator_full)
      have total: "message_len ?acc + length (frag i) = length (concat (map frag [0..<fc]))"
      proof -
        have "message_len (partial_accumulator mid fc frag (insert i I))
                = length (concat (map frag [0..<fc]))"
          unfolding full
          by (simp add: partial_accumulator_def length_concat comp_def
                interv_sum_list_conv_sum_set_nat)
        then show ?thesis
          using fin new by (simp add: partial_accumulator_def)
      qed
      show ?thesis
        unfolding af
        using full eq re small total
        by (simp add: Let_def rc cnt)
    next
      case notfull: False
      then have "card I + 1 \<noteq> fc" using card_eq by simp
      then show ?thesis
        unfolding af
        using notfull le
        by (simp add: Let_def rc cnt)
    qed
  qed
qed


lemma deliver_all:
  assumes H: "\<forall>i<fc. \<forall>d'. source_id d' = sid \<longrightarrow> message_types d' = ts \<longrightarrow>
                decode_packet d' (P i) = accumulate_fragment d' t mid i fc (frag i)"
    and small: "fc \<le> 100" "length (concat (map frag [0..<fc])) \<le> 64 * 1024"
    and cfg: "source_id d = sid" "message_types d = ts"
    and st: "if I = {} then accumulators d t = None
             else accumulators d t = Some (partial_accumulator mid fc frag I)"
    and fin: "finite I" and dist: "distinct idxs" and disj: "set idxs \<inter> I = {}"
    and cover: "set idxs \<union> I = {0..<fc}" and ne: "idxs \<noteq> []"
  shows "filter is_message (fst (snd (decode_packets d (map P idxs))))
           = [Message (concat (map frag [0..<fc])) t
                \<lparr>md_message_id = mid, md_fragment_count = fc,
                 md_total_bytes = length (concat (map frag [0..<fc]))\<rparr>]
         \<and> snd (snd (decode_packets d (map P idxs))) = []"
  using cfg st fin dist disj cover ne
proof (induction idxs arbitrary: d I)
  case Nil
  then show ?case by simp
next
  case (Cons i idxs)
  let ?r = "accumulate_fragment d t mid i fc (frag i)"
  have i: "i < fc" and new: "i \<notin> I" and sub: "insert i I \<subseteq> {0..<fc}"
    using Cons.prems(6,7) by auto
  have dp: "decode_packet d (P i) = ?r"
    using H i Cons.prems(1,2) by simp
  note step = deliver_step [OF Cons.prems(3) Cons.prems(4) new sub small]
  have cfg': "source_id (dr_state ?r) = sid" "message_types (dr_state ?r) = ts"
    using accumulate_fragment_config [of d t mid i fc "frag i"] Cons.prems(1,2) by simp_all
  show ?case
  proof (cases "insert i I = {0..<fc}")
    case True
    have "set idxs \<subseteq> {0..<fc} - insert i I"
      using Cons.prems(5,6,7) by auto
    then have "idxs = []" using True by simp
    then show ?thesis
      using step True by (simp add: dp Let_def case_prod_unfold)
  next
    case False
    have ne': "idxs \<noteq> []"
      using False Cons.prems(7) by auto
    have st': "if insert i I = {} then accumulators (dr_state ?r) t = None
               else accumulators (dr_state ?r) t
                      = Some (partial_accumulator mid fc frag (insert i I))"
      using step False by simp
    have ih: "filter is_message (fst (snd (decode_packets (dr_state ?r) (map P idxs))))
           = [Message (concat (map frag [0..<fc])) t
                \<lparr>md_message_id = mid, md_fragment_count = fc,
                 md_total_bytes = length (concat (map frag [0..<fc]))\<rparr>]
         \<and> snd (snd (decode_packets (dr_state ?r) (map P idxs))) = []"
      using Cons.prems(4,5,6,7) ne'
      by (intro Cons.IH [OF cfg' st']) auto
    show ?thesis
      using step False ih by (simp add: dp Let_def case_prod_unfold)
  qed
qed


lemma permuted_packets:
  assumes "mset delivered = mset (map P [0..<fc])"
    and "\<forall>i<fc. packet_fragment_index (P i) = i"
  obtains idxs where "delivered = map P idxs" and "distinct idxs" and "set idxs = {0..<fc}"
proof -
  let ?idxs = "map packet_fragment_index delivered"
  have "set delivered = set (map P [0..<fc])"
    using assms(1) by (rule mset_eq_setD)
  then have "\<forall>p\<in>set delivered. P (packet_fragment_index p) = p"
    using assms(2) by auto
  then have 1: "delivered = map P ?idxs"
    by (simp add: map_idI)
  have "mset ?idxs = image_mset packet_fragment_index (mset (map P [0..<fc]))"
    using assms(1) by simp
  also have "\<dots> = image_mset (\<lambda>i. packet_fragment_index (P i)) (mset [0..<fc])"
    by (simp add: multiset.map_comp comp_def)
  also have "\<dots> = image_mset (\<lambda>i. i) (mset [0..<fc])"
    using assms(2) by (intro image_mset_cong) simp
  finally have m: "mset ?idxs = mset [0..<fc]" by simp
  have 2: "distinct ?idxs"
    using m mset_eq_imp_distinct_iff [of ?idxs "[0..<fc]"] by simp
  have 3: "set ?idxs = {0..<fc}"
    using mset_eq_setD [OF m] by simp
  show ?thesis using that 1 2 3 by blast
qed

text \<open>
  C1. Let a buffer of at most \<open>5 * 1200\<close> bytes be encoded with a message type in 0..63,
  and let all packets the encoder emits be delivered, in any order, to a fresh decoder of
  the encoder's source id that does not filter the type out. Then the decoder emits exactly
  one \<open>message\<close> event; it carries the original buffer, the message id the encoder
  returned, the fragment count and the length of the buffer as \<open>total_bytes\<close>; and no
  reassembly is deferred.
\<close>

theorem round_trip:
  assumes "length payload \<le> 5 * 1200" and "0 \<le> mt" and "mt \<le> 63"
    and "enc_message_id e \<le> 0xFFFF"
    and "enc_source_id e2 = enc_source_id e"
    and "case ts of None \<Rightarrow> True | Some s \<Rightarrow> nat mt \<in> s"
    and "mset delivered = mset (packets_of (snd (run_enc_deferred e2
                                  (snd (snd (encode_message e (Buffer payload) mt))))))"
  shows "filter is_message
           (fst (snd (decode_packets (new_decoder (enc_source_id e) ts) delivered)))
         = [Message payload (nat mt)
              \<lparr>md_message_id = enc_message_id e,
               md_fragment_count = nat (max 1 \<lceil>real (length payload) / 1200\<rceil>),
               md_total_bytes = length payload\<rparr>]
       \<and> snd (snd (decode_packets (new_decoder (enc_source_id e) ts) delivered)) = []"
proof -
  let ?fc = "max 1 (ceil_div (length payload) MAX_PAYLOAD_SIZE)"
  let ?sid = "enc_source_id e" and ?mid = "enc_message_id e" and ?t = "nat mt"
  let ?frag = "fragment_payload payload"
  let ?P = "\<lambda>i. jtp_header ?sid mt ?mid i ?fc @ ?frag i"
  let ?d = "new_decoder ?sid ts"
  have fc_int: "int ?fc = max 1 \<lceil>real (length payload) / 1200\<rceil>"
    using fragment_count_ceiling [of payload] by (simp add: MAX_PAYLOAD_SIZE_def)
  then have fc_nat: "nat (max 1 \<lceil>real (length payload) / 1200\<rceil>) = ?fc"
    by (metis nat_int)
  have fc5: "?fc \<le> 5"
    using assms(1) by (simp add: ceil_div_def MAX_PAYLOAD_SIZE_def)
  then have fc16: "?fc \<le> 0xFFFF" and fc100: "?fc \<le> 100" by simp_all
  have pk: "packets_of (snd (run_enc_deferred e2
                                  (snd (snd (encode_message e (Buffer payload) mt)))))
            = map ?P [0..<?fc]"
    using assms(2-5) fc16
    by (simp add: encode_message_success encode_message_async_packets)
  have rd: "packet_type (?P i) = ?t \<and> packet_message_id (?P i) = ?mid
          \<and> packet_fragment_index (?P i) = i \<and> packet_fragment_count (?P i) = ?fc
          \<and> packet_payload (?P i) = ?frag i \<and> packet_source_id (?P i) = ?sid
          \<and> packet_version (?P i) = VERSION \<and> readUInt8 (?P i) 0 = MAGIC_BYTE
          \<and> 12 \<le> length (?P i)" if "i < ?fc" for i
  proof -
    have i16: "i \<le> 0xFFFF" using that fc16 by simp
    show ?thesis
      using jtp_header_read [OF assms(4) i16 fc16 assms(2,3), of ?sid "?frag i"] by simp
  qed
  have H: "\<forall>i<?fc. \<forall>d'. source_id d' = ?sid \<longrightarrow> message_types d' = ts \<longrightarrow>
             decode_packet d' (?P i) = accumulate_fragment d' ?t ?mid i ?fc (?frag i)"
  proof (intro allI impI)
    fix i and d' :: decoder
    assume i: "i < ?fc" and c: "source_id d' = ?sid" "message_types d' = ts"
    have "length (?frag i) \<le> MAX_PAYLOAD_SIZE" by (simp add: fragment_payload_def)
    then have "passes_filters d' (?P i)"
      using rd [OF i] i c assms(6) by (auto simp: passes_filters_def split: option.splits)
    then show "decode_packet d' (?P i) = accumulate_fragment d' ?t ?mid i ?fc (?frag i)"
      using rd [OF i] by (simp add: decode_packet_accumulate)
  qed
  have whole: "concat (map ?frag [0..<?fc]) = payload"
    using fragment_count_arith(2) [of "length payload"]
    by (intro concat_fragment_payloads) (simp add: MAX_PAYLOAD_SIZE_def)
  have small: "length (concat (map ?frag [0..<?fc])) \<le> 64 * 1024"
    unfolding whole using assms(1) by simp
  from assms(7) have "mset delivered = mset (map ?P [0..<?fc])"
    by (simp only: pk)
  moreover have "\<forall>i<?fc. packet_fragment_index (?P i) = i"
    using rd by simp
  ultimately obtain idxs where idxs: "delivered = map ?P idxs" "distinct idxs"
      "set idxs = {0..<?fc}"
    by (rule permuted_packets)
  have ne: "idxs \<noteq> []" using idxs(3) by auto
  have "filter is_message (fst (snd (decode_packets ?d (map ?P idxs))))
           = [Message (concat (map ?frag [0..<?fc])) ?t
                \<lparr>md_message_id = ?mid, md_fragment_count = ?fc,
                 md_total_bytes = length (concat (map ?frag [0..<?fc]))\<rparr>]
         \<and> snd (snd (decode_packets ?d (map ?P idxs))) = []"
    using idxs(2,3) ne
    by (intro deliver_all [OF H fc100 small, where I = "{}"])
       (simp_all add: new_decoder_def)
  then show ?thesis
    by (simp only: whole fc_nat flip: idxs(1))
qed


theorem round_trip_witness:
  "length (replicate 2500 (0::byte)) \<le> 5 * 1200
   \<and> filter is_message
         (fst (snd (decode_packets (new_decoder 7 None)
            (rev (packets_of (snd (run_enc_deferred (new_encoder 7)
               (snd (snd (encode_message (new_encoder 7) (Buffer (replicate 2500 0)) 10))))))))))
       = [Message (replicate 2500 0) 10
            \<lparr>md_message_id = 0, md_fragment_count = 3, md_total_bytes = 2500\<rparr>]"
  using round_trip
    [of "replicate 2500 0" 10 "new_encoder 7" "new_encoder 7" None
        "rev (packets_of (snd (run_enc_deferred (new_encoder 7)
               (snd (snd (encode_message (new_encoder 7) (Buffer (replicate 2500 0)) 10))))))"]
  by (simp add: new_encoder_def)

subsection \<open>Freshness of message ids\<close>

text \<open>
  C6. \<open>_is_newer_message(a, b)\<close> holds exactly when the forward circular distance
  \<open>(a - b) mod 65536\<close> lies strictly between 0 and 32768. So id 0 is newer than id 65535
  (distance 1) and id 65535 is not newer than id 0 (distance 65535). In \<open>decode_packet\<close>,
  a valid fragment with id 0 that meets an accumulator with id 65535 preempts it: the call
  emits \<open>message:incomplete\<close> for message 65535 and \<open>message:start\<close> for message 0,
  replaces the accumulator by a fresh one for message 0 that holds this fragment alone,
  and returns \<open>true\<close> (a message of one fragment is emitted at once, and no accumulator
  is left). A valid fragment with id 65535 that meets an accumulator with id 0 is ignored
  as stale.
\<close>

theorem is_newer_message_circular_distance:
  "(is_newer_message a b \<longleftrightarrow>
      0 < (int a - int b) mod 65536 \<and> (int a - int b) mod 65536 < 32768)
   \<and> is_newer_message 0 65535 \<and> (int 0 - int 65535) mod 65536 = 1
   \<and> \<not> is_newer_message 65535 0 \<and> (int 65535 - int 0) mod 65536 = 65535
   \<and> (passes_filters d p \<and> accumulators d (packet_type p) = Some acc
        \<and> message_id acc = 65535 \<and> packet_message_id p = 0 \<longrightarrow>
      decode_packet d p =
        (if packet_fragment_count p = 1
         then \<lparr>dr_state = d\<lparr>accumulators := (accumulators d)(packet_type p := None)\<rparr>,
               dr_events =
                 [MessageIncomplete (packet_type p) 65535 (fragments_received acc)
                    (fragment_count acc),
                  MessageStart (packet_type p) 0 1,
                  FragmentReceived (packet_type p) 0 (packet_fragment_index p) 1 1,
                  Message (packet_payload p) (packet_type p)
                    \<lparr>md_message_id = 0, md_fragment_count = 1,
                     md_total_bytes = length (packet_payload p)\<rparr>,
                  MessageComplete (packet_type p) 0 1 (length (packet_payload p))],
               dr_return = True, dr_deferred = None\<rparr>
         else \<lparr>dr_state = d\<lparr>accumulators := (accumulators d)(packet_type p \<mapsto>
                   \<lparr>message_id = 0, fragment_count = packet_fragment_count p,
                    fragments_received = 1,
                    fragments = [packet_fragment_index p \<mapsto> packet_payload p],
                    message_len = length (packet_payload p), valid = True\<rparr>)\<rparr>,
               dr_events =
                 [MessageIncomplete (packet_type p) 65535 (fragments_received acc)
                    (fragment_count acc),
                  MessageStart (packet_type p) 0 (packet_fragment_count p),
                  FragmentReceived (packet_type p) 0 (packet_fragment_index p)
                    (packet_fragment_count p) 1],
               dr_return = True, dr_deferred = None\<rparr>))
   \<and> (passes_filters d' p' \<and> accumulators d' (packet_type p') = Some acc'
        \<and> message_id acc' = 0 \<and> packet_message_id p' = 65535 \<longrightarrow>
      decode_packet d' p' = silent d')"
proof -
  have newer: "is_newer_message 0 65535" and older: "\<not> is_newer_message 65535 0"
    by (simp_all add: is_newer_message_mod)
  have preempt: "decode_packet d p =
        (if packet_fragment_count p = 1
         then \<lparr>dr_state = d\<lparr>accumulators := (accumulators d)(packet_type p := None)\<rparr>,
               dr_events =
                 [MessageIncomplete (packet_type p) 65535 (fragments_received acc)
                    (fragment_count acc),
                  MessageStart (packet_type p) 0 1,
                  FragmentReceived (packet_type p) 0 (packet_fragment_index p) 1 1,
                  Message (packet_payload p) (packet_type p)
                    \<lparr>md_message_id = 0, md_fragment_count = 1,
                     md_total_bytes = length (packet_payload p)\<rparr>,
                  MessageComplete (packet_type p) 0 1 (length (packet_payload p))],
               dr_return = True, dr_deferred = None\<rparr>
         else \<lparr>dr_state = d\<lparr>accumulators := (accumulators d)(packet_type p \<mapsto>
                   \<lparr>message_id = 0, fragment_count = packet_fragment_count p,
                    fragments_received = 1,
                    fragments = [packet_fragment_index p \<mapsto> packet_payload p],
                    message_len = length (packet_payload p), valid = True\<rparr>)\<rparr>,
               dr_events =
                 [MessageIncomplete (packet_type p) 65535 (fragments_received acc)
                    (fragment_count acc),
                  MessageStart (packet_type p) 0 (packet_fragment_count p),
                  FragmentReceived (packet_type p) 0 (packet_fragment_index p)
                    (packet_fragment_count p) 1],
               dr_return = True, dr_deferred = None\<rparr>)"
    if h: "passes_filters d p" "accumulators d (packet_type p) = Some acc"
       "message_id acc = 65535" "packet_message_id p = 0"
  proof -
    let ?t = "packet_type p" and ?i = "packet_fragment_index p" and ?pl = "packet_payload p"
    let ?c = "packet_fragment_count p"
    have new: "case accumulators d ?t of None \<Rightarrow> True
               | Some a \<Rightarrow> is_newer_message 0 (message_id a)"
      using h(2,3) newer by simp
    have pos: "\<not> 1 > ?c" and small: "\<not> length ?pl > 64 * 1024"
      using h(1) by (simp_all add: passes_filters_def MAX_PAYLOAD_SIZE_def)
    have dp: "decode_packet d p = accumulate_fragment d ?t 0 ?i ?c ?pl"
      using h(1,4) by (simp add: decode_packet_accumulate)
    show ?thesis
    proof (cases "?c = 1")
      case True
      then have i0: "?i = 0" using h(1) by (simp add: passes_filters_def)
      let ?acc = "\<lparr>message_id = 0, fragment_count = 1, fragments_received = 1,
                     fragments = [0 \<mapsto> ?pl], message_len = length ?pl, valid = True\<rparr>"
      let ?d2 = "d\<lparr>accumulators := (accumulators d)(?t \<mapsto> ?acc)\<rparr>"
      have re: "reassemble_message ?d2 ?t 0 =
         (reset_message_state ?d2 (Some ?t),
          [Message (concat (map (\<lambda>i. the (fragments ?acc i)) [0..<fragment_count ?acc])) ?t
             \<lparr>md_message_id = 0, md_fragment_count = fragment_count ?acc,
              md_total_bytes = message_len ?acc\<rparr>,
           MessageComplete ?t 0 (fragment_count ?acc) (message_len ?acc)])"
        by (intro reassemble_message_complete) simp_all
      show ?thesis
        unfolding dp accumulate_fragment_new [OF new]
        using True i0 small re h(2,3)
        by (simp add: Let_def reset_message_state_def)
    next
      case False
      then show ?thesis
        unfolding dp accumulate_fragment_new [OF new]
        using pos h(2,3) by (simp add: Let_def)
    qed
  qed
  have stale: "decode_packet d' p' = silent d'"
    if "passes_filters d' p'" "accumulators d' (packet_type p') = Some acc'"
       "message_id acc' = 0" "packet_message_id p' = 65535"
    using that newer
    by (simp add: decode_packet_accumulate accumulate_fragment_def silent_def)
  show ?thesis
    using newer older preempt stale by (simp add: is_newer_message_mod)
qed


theorem is_newer_message_circular_distance_witness:
  "passes_filters (dr_state (decode_packet (new_decoder 0 None) pkt_id65535_frag1of2))
     pkt_id0_frag0of2
   \<and> accumulators (dr_state (decode_packet (new_decoder 0 None) pkt_id65535_frag1of2)) 5 =
       Some \<lparr>message_id = 65535, fragment_count = 2, fragments_received = 1,
             fragments = [1 \<mapsto> [0xCC]], message_len = 1, valid = True\<rparr>
   \<and> dr_events (decode_packet
          (dr_state (decode_packet (new_decoder 0 None) pkt_id65535_frag1of2))
          pkt_id0_frag0of2) =
       [MessageIncomplete 5 65535 1 2, MessageStart 5 0 2, FragmentReceived 5 0 0 2 1]
   \<and> accumulators (dr_state (decode_packet
          (dr_state (decode_packet (new_decoder 0 None) pkt_id65535_frag1of2))
          pkt_id0_frag0of2)) 5 =
       Some \<lparr>message_id = 0, fragment_count = 2, fragments_received = 1,
             fragments = [0 \<mapsto> [0xAA]], message_len = 1, valid = True\<rparr>
   \<and> passes_filters (dr_state (decode_packet (new_decoder 0 None) pkt_id0_frag0of2))
     pkt_id65535_frag1of2
   \<and> decode_packet
          (dr_state (decode_packet (new_decoder 0 None) pkt_id0_frag0of2))
          pkt_id65535_frag1of2
       = silent (dr_state (decode_packet (new_decoder 0 None) pkt_id0_frag0of2))"
  using is_newer_message_circular_distance
    [of 0 65535
        "dr_state (decode_packet (new_decoder 0 None) pkt_id65535_frag1of2)"
        pkt_id0_frag0of2
        "\<lparr>message_id = 65535, fragment_count = 2, fragments_received = 1,
          fragments = [1 \<mapsto> [0xCC]], message_len = 1, valid = True\<rparr>"
        "dr_state (decode_packet (new_decoder 0 None) pkt_id0_frag0of2)"
        pkt_id65535_frag1of2
        "\<lparr>message_id = 0, fragment_count = 2, fragments_received = 1,
          fragments = [0 \<mapsto> [0xAA]], message_len = 1, valid = True\<rparr>"]
  by (simp add: eval_defs passes_filters_def packet_defs silent_def
        pkt_id65535_frag1of2_def pkt_id0_frag0of2_def)

subsection \<open>The last fragment of a message\<close>













end
